theory Spec2Isabelle
  imports Complex_Main "HOL-Library.Word"
begin

unbundle bit_operations_syntax

section \<open>JavaScript numbers\<close>

text \<open>
  Every JavaScript number is an IEEE 754 binary64 value and every element of a
  \<^verbatim>\<open>Float32Array\<close> is a binary32 value. A finite number is modelled by the real it
  denotes, and each arithmetic operation of the source by the exact operation followed by
  rounding to the nearest representable value, ties to even. Rates, lengths, ratios and
  indices are finite: where a division by zero would make one infinite the model has an
  explicit branch. A sample can also be an infinity or NaN; samples have a type of their
  own below.

  \<open>binexp x\<close> is the binary exponent of a non-zero \<open>x\<close>, the \<open>e\<close> with
  \<open>2^e \<le> |x| < 2^(e+1)\<close>; \<open>fround p emin\<close> rounds to \<open>p\<close> significant bits with
  least quantum \<open>2^emin\<close> (gradual underflow). A binary64 operation on finite numbers
  does not overflow here: the samples are below \<open>2^128\<close> in magnitude and are multiplied
  by at most 32768. The overflow of a store into a \<^verbatim>\<open>Float32Array\<close> is modelled
  (\<open>toFloat32\<close>).
\<close>

fun ilog2 :: "nat \<Rightarrow> nat" where
  "ilog2 n = (if n < 2 then 0 else Suc (ilog2 (n div 2)))"

declare ilog2.simps [simp del]

definition binexp :: "real \<Rightarrow> int" where
  "binexp x = (if 1 \<le> \<bar>x\<bar> then int (ilog2 (nat \<lfloor>\<bar>x\<bar>\<rfloor>))
               else - int (Suc (ilog2 (nat (\<lceil>1 / \<bar>x\<bar>\<rceil> - 1)))))"

definition pow2 :: "int \<Rightarrow> real" where
  "pow2 k = (if 0 \<le> k then 2 ^ nat k else 1 / 2 ^ nat (- k))"

definition roundTiesToEven :: "real \<Rightarrow> int" where
  "roundTiesToEven y = (let f = \<lfloor>y\<rfloor>; d = y - of_int f in
     if d < 1 / 2 then f else if 1 / 2 < d then f + 1 else if even f then f else f + 1)"

definition fround :: "nat \<Rightarrow> int \<Rightarrow> real \<Rightarrow> real" where
  "fround p emin x = (if x = 0 then 0 else
     let k = max (binexp x - int p + 1) emin
     in of_int (roundTiesToEven (x / pow2 k)) * pow2 k)"

definition fl64 :: "real \<Rightarrow> real" where
  "fl64 = fround 53 (- 1074)"

definition fl32 :: "real \<Rightarrow> real" where
  "fl32 = fround 24 (- 149)"

text \<open>A real is a (finite) binary32 value when rounding leaves it alone and it is in
  range.\<close>

definition is_float32 :: "real \<Rightarrow> bool" where
  "is_float32 x = (fl32 x = x \<and> \<bar>x\<bar> < 2 ^ 128)"

text \<open>\<^verbatim>\<open>Math.floor\<close> is \<open>\<lfloor>_\<rfloor>\<close>; the integer conversion of \<^verbatim>\<open>ToInt16\<close> truncates
  towards zero.\<close>

definition jsTruncate :: "real \<Rightarrow> int" where
  "jsTruncate v = (if 0 \<le> v then \<lfloor>v\<rfloor> else \<lceil>v\<rceil>)"

text \<open>
  A number as a variable or an array element holds it: finite, an infinity, or NaN.
  A finite element of a \<^verbatim>\<open>Float32Array\<close> is a binary32 value, which \<open>is_float32\<close>
  says where a property depends on it. The sign of zero is not kept; nothing below
  depends on it. The operations are the language's \<^verbatim>\<open><\<close>, \<^verbatim>\<open>Math.abs\<close>,
  \<^verbatim>\<open>Math.min\<close>, \<^verbatim>\<open>Math.max\<close>, the product with a finite number, the sum, and the
  conversion made by a store into a \<^verbatim>\<open>Float32Array\<close>.
\<close>

datatype sample = Num real | PosInf | NegInf | NaN

fun jsLess :: "sample \<Rightarrow> sample \<Rightarrow> bool" where
  "jsLess (Num a) (Num b) = (a < b)"
| "jsLess (Num a) PosInf = True"
| "jsLess NegInf (Num b) = True"
| "jsLess NegInf PosInf = True"
| "jsLess _ _ = False"

fun absNumber :: "sample \<Rightarrow> sample" where
  "absNumber (Num a) = Num \<bar>a\<bar>"
| "absNumber PosInf = PosInf"
| "absNumber NegInf = PosInf"
| "absNumber NaN = NaN"

fun mathMin :: "real \<Rightarrow> sample \<Rightarrow> sample" where
  "mathMin c (Num a) = Num (min c a)"
| "mathMin c PosInf = Num c"
| "mathMin c NegInf = NegInf"
| "mathMin c NaN = NaN"

fun mathMax :: "real \<Rightarrow> sample \<Rightarrow> sample" where
  "mathMax c (Num a) = Num (max c a)"
| "mathMax c PosInf = PosInf"
| "mathMax c NegInf = Num c"
| "mathMax c NaN = NaN"

fun timesNumber :: "sample \<Rightarrow> real \<Rightarrow> sample" where
  "timesNumber (Num a) c = Num (fl64 (a * c))"
| "timesNumber PosInf c = (if c = 0 then NaN else if 0 < c then PosInf else NegInf)"
| "timesNumber NegInf c = (if c = 0 then NaN else if 0 < c then NegInf else PosInf)"
| "timesNumber NaN c = NaN"

fun plusNumber :: "sample \<Rightarrow> sample \<Rightarrow> sample" where
  "plusNumber (Num a) (Num b) = Num (fl64 (a + b))"
| "plusNumber NaN _ = NaN"
| "plusNumber _ NaN = NaN"
| "plusNumber PosInf NegInf = NaN"
| "plusNumber NegInf PosInf = NaN"
| "plusNumber PosInf _ = PosInf"
| "plusNumber NegInf _ = NegInf"
| "plusNumber (Num a) PosInf = PosInf"
| "plusNumber (Num a) NegInf = NegInf"

fun toFloat32 :: "sample \<Rightarrow> sample" where
  "toFloat32 (Num v) =
     (if 2 ^ 128 \<le> \<bar>fl32 v\<bar> then (if 0 < v then PosInf else NegInf) else Num (fl32 v))"
| "toFloat32 s = s"

section \<open>Resampler (\<^verbatim>\<open>resampleAudio\<close>)\<close>

text \<open>
  A frame is the list of its elements. Sample rates are whole numbers of hertz.
  \<^verbatim>\<open>new Float32Array(n)\<close> throws a \<^verbatim>\<open>RangeError\<close> when the engine will not allocate
  \<open>n\<close> elements. How long an array an engine allocates depends on the engine and its
  memory, so it is a parameter, \<open>arrayLimit\<close>; whatever the engine, the language refuses
  an infinite length and one above \<open>2^53 - 1\<close> (\<^verbatim>\<open>ToIndex\<close>). A read outside the input
  yields \<^verbatim>\<open>undefined\<close>, and arithmetic on \<^verbatim>\<open>undefined\<close> or NaN yields NaN, without any
  exception.
\<close>

datatype js_error = RangeError

definition maxTypedArrayLength :: nat where
  "maxTypedArrayLength = 2 ^ 53 - 1"

definition allocates :: "nat \<Rightarrow> nat \<Rightarrow> bool" where
  "allocates arrayLimit n = (n \<le> arrayLimit \<and> n \<le> maxTypedArrayLength)"

definition resampleRatio :: "nat \<Rightarrow> nat \<Rightarrow> real" where
  "resampleRatio inputSampleRate outputSampleRate =
     fl64 (real inputSampleRate / real outputSampleRate)"

text \<open>\<^verbatim>\<open>Math.floor(inputBuffer.length / ratio)\<close>, for a finite non-zero ratio.\<close>

definition outputLength :: "nat \<Rightarrow> real \<Rightarrow> nat" where
  "outputLength len ratio = nat \<lfloor>fl64 (real len / ratio)\<rfloor>"

definition srcIndex :: "real \<Rightarrow> nat \<Rightarrow> real" where
  "srcIndex ratio i = fl64 (real i * ratio)"

definition srcIndexFloor :: "real \<Rightarrow> nat \<Rightarrow> int" where
  "srcIndexFloor ratio i = \<lfloor>srcIndex ratio i\<rfloor>"

definition srcIndexCeil :: "nat \<Rightarrow> real \<Rightarrow> nat \<Rightarrow> int" where
  "srcIndexCeil len ratio i = min (srcIndexFloor ratio i + 1) (int len - 1)"

text \<open>\<open>inputBuffer[j]\<close>: \<open>None\<close> is \<^verbatim>\<open>undefined\<close>.\<close>

definition readSample :: "sample list \<Rightarrow> int \<Rightarrow> sample option" where
  "readSample inputBuffer j =
     (if 0 \<le> j \<and> j < int (length inputBuffer) then Some (inputBuffer ! nat j) else None)"

text \<open>One iteration of the loop, the value stored in \<open>output[i]\<close>.\<close>

definition outputSample :: "sample list \<Rightarrow> real \<Rightarrow> nat \<Rightarrow> sample" where
  "outputSample inputBuffer ratio i =
     (let t = fl64 (srcIndex ratio i - of_int (srcIndexFloor ratio i)) in
      case (readSample inputBuffer (srcIndexFloor ratio i),
            readSample inputBuffer (srcIndexCeil (length inputBuffer) ratio i)) of
        (Some a, Some b) \<Rightarrow>
          toFloat32 (plusNumber (timesNumber a (fl64 (1 - t))) (timesNumber b t))
      | _ \<Rightarrow> NaN)"

definition resampleAudio ::
  "nat \<Rightarrow> sample list \<Rightarrow> nat \<Rightarrow> nat \<Rightarrow> js_error + sample list" where
  "resampleAudio arrayLimit inputBuffer inputSampleRate outputSampleRate =
     (if inputSampleRate = outputSampleRate then Inr inputBuffer
      else if outputSampleRate = 0 then Inr []
      else if resampleRatio inputSampleRate outputSampleRate = 0 then
        (if inputBuffer = [] then Inr [] else Inl RangeError)
      else
        let ratio = resampleRatio inputSampleRate outputSampleRate;
            n = outputLength (length inputBuffer) ratio
        in if \<not> allocates arrayLimit n then Inl RangeError
           else Inr (map (outputSample inputBuffer ratio) [0..<n]))"

text \<open>The length of the frame returned, if one is.\<close>

definition resampledLength :: "nat \<Rightarrow> sample list \<Rightarrow> nat \<Rightarrow> nat \<Rightarrow> nat option" where
  "resampledLength arrayLimit inputBuffer inputSampleRate outputSampleRate =
     (case resampleAudio arrayLimit inputBuffer inputSampleRate outputSampleRate of
        Inl e \<Rightarrow> None
      | Inr output \<Rightarrow> Some (length output))"

text \<open>
  The same function on a store of buffers, to say which buffer is returned: the result
  is the store after the call and the reference returned. A new array gets the next
  unused reference. \<open>None\<close> is a dangling argument, which the source's types exclude.
\<close>

type_synonym ref = nat
type_synonym heap = "(sample list) list"

definition resampleAudio_ref ::
  "nat \<Rightarrow> heap \<Rightarrow> ref \<Rightarrow> nat \<Rightarrow> nat \<Rightarrow> (js_error + heap \<times> ref) option" where
  "resampleAudio_ref arrayLimit h r inputSampleRate outputSampleRate =
     (if length h \<le> r then None
      else if inputSampleRate = outputSampleRate then Some (Inr (h, r))
      else case resampleAudio arrayLimit (h ! r) inputSampleRate outputSampleRate of
             Inl e \<Rightarrow> Some (Inl e)
           | Inr ys \<Rightarrow> Some (Inr (h @ [ys], length h)))"

section \<open>PCM encoder (\<^verbatim>\<open>float32ToPCM16\<close>)\<close>

text \<open>
  The buffer is the list of its bytes. \<^verbatim>\<open>DataView.setInt16(offset, val, true)\<close> converts
  \<open>val\<close> with \<^verbatim>\<open>ToInt16\<close> (NaN and the infinities become 0; a finite number is
  truncated, then reduced modulo \<open>2^16\<close>) and stores the low byte first.
\<close>

definition clampSample :: "sample \<Rightarrow> sample" where
  "clampSample x = mathMax (- 1) (mathMin 1 x)"

definition scaleSample :: "sample \<Rightarrow> sample" where
  "scaleSample s = (if jsLess s (Num 0) then timesNumber s 32768 else timesNumber s 32767)"

fun toInt16 :: "sample \<Rightarrow> 16 word" where
  "toInt16 (Num v) = word_of_int (jsTruncate v)"
| "toInt16 _ = 0"

definition setInt16LE :: "16 word \<Rightarrow> 8 word list" where
  "setInt16LE w = [ucast w, ucast (drop_bit 8 w)]"

definition encodeSample :: "sample \<Rightarrow> 8 word list" where
  "encodeSample x = setInt16LE (toInt16 (scaleSample (clampSample x)))"

definition float32ToPCM16 :: "sample list \<Rightarrow> 8 word list" where
  "float32ToPCM16 float32Array = concat (map encodeSample float32Array)"

text \<open>Reading the buffer back: the signed 16-bit little-endian value at a byte offset
  (\<^verbatim>\<open>DataView.getInt16(offset, true)\<close>).\<close>

definition getInt16LE :: "8 word list \<Rightarrow> nat \<Rightarrow> int" where
  "getInt16LE buf off = sint (word_cat (buf ! (off + 1)) (buf ! off) :: 16 word)"

text \<open>
  Modelled from the spec: no decoder is among the sources (the receiving device owns
  it), and the spec speaks only of "decoding an encoded PCM16 buffer back to
  floating-point" without saying how. Three decoders are considered: the usual one for
  16-bit PCM, which divides by 32768; the one that divides by 32767; and the one that
  undoes the encoder's asymmetric scaling.
\<close>

definition decodeBy32768 :: "int \<Rightarrow> real" where
  "decodeBy32768 v = of_int v / 32768"

definition decodeBy32767 :: "int \<Rightarrow> real" where
  "decodeBy32767 v = of_int v / 32767"

definition decodeSample :: "int \<Rightarrow> real" where
  "decodeSample v = (if v < 0 then of_int v / 32768 else of_int v / 32767)"

section \<open>Relay connection and audio frame pipeline (\<^verbatim>\<open>useRobotAudioBridge\<close>)\<close>

text \<open>
  The hook's references and state, together with what the browser holds for it: the
  ready state of every \<^verbatim>\<open>WebSocket\<close> constructed so far (a socket is named by its
  position in \<open>sockets\<close>), the messages handed to \<^verbatim>\<open>send\<close>, the telemetry written,
  the sample rate of the audio context and the length of array the engine allocates.
  \<open>totalFrames\<close> and \<open>chunkCount\<close> are the counters of the current audio processor.
  \<open>calls\<close> records the calls of the frame handler, in order.
  The byte counter is a whole number; JavaScript's arithmetic on it is exact below
  \<open>2^53\<close>, which no session reaches.
\<close>

datatype readyState = CONNECTING | OPEN | CLOSING | CLOSED

datatype message = NewStream | Finish | Pcm "8 word list"

datatype call = CallResample | CallEncode | CallSend

record bridge =
  sockets :: "readyState list"
  wire :: "(nat \<times> message) list"
  wsRef :: "nat option"
  isConnectingRef :: bool
  hasProcessorRef :: bool
  bytesSentRef :: nat
  connected :: bool
  error :: "string option"
  bytesSent :: nat
  sampleRate :: nat
  arrayLimit :: nat
  totalFrames :: nat
  chunkCount :: nat
  calls :: "call list"
  checkpoints :: "nat list"
  frameDiagnostics :: "nat list"

definition TARGET_SAMPLE_RATE :: nat where
  "TARGET_SAMPLE_RATE = 16000"

text \<open>The literal \<^verbatim>\<open>0.0001\<close> denotes the double nearest to \<open>1/10000\<close>.\<close>

definition silenceThreshold :: real where
  "silenceThreshold = fl64 (1 / 10000)"

definition initialBridge :: bridge where
  "initialBridge = \<lparr> sockets = [], wire = [], wsRef = None, isConnectingRef = False,
     hasProcessorRef = False, bytesSentRef = 0, connected = False, error = None,
     bytesSent = 0, sampleRate = 48000, arrayLimit = maxTypedArrayLength, totalFrames = 0,
     chunkCount = 0, calls = [],
     checkpoints = [], frameDiagnostics = [] \<rparr>"

text \<open>\<^verbatim>\<open>wsRef.current?.readyState\<close>\<close>

definition wsReadyState :: "bridge \<Rightarrow> readyState option" where
  "wsReadyState st = (case wsRef st of
       None \<Rightarrow> None
     | Some i \<Rightarrow> if i < length (sockets st) then Some (sockets st ! i) else None)"

definition connectToRobot :: "bridge \<Rightarrow> bridge" where
  "connectToRobot st =
     (if wsReadyState st = Some OPEN \<or> wsReadyState st = Some CONNECTING
         \<or> isConnectingRef st
      then st
      else st\<lparr> isConnectingRef := True,
               sockets := sockets st @ [CONNECTING],
               wsRef := Some (length (sockets st)) \<rparr>)"

text \<open>The four handlers that \<^verbatim>\<open>connectToRobot\<close> installs on socket \<open>i\<close>.\<close>

definition onopen :: "nat \<Rightarrow> bridge \<Rightarrow> bridge" where
  "onopen i st = st\<lparr> isConnectingRef := False, connected := True, error := None,
                     wire := wire st @ [(i, NewStream)] \<rparr>"

definition onclose :: "nat \<Rightarrow> bridge \<Rightarrow> bridge" where
  "onclose i st = st\<lparr> isConnectingRef := False, connected := False, wsRef := None \<rparr>"

definition onerror :: "nat \<Rightarrow> bridge \<Rightarrow> bridge" where
  "onerror i st = st\<lparr> isConnectingRef := False, error := Some ''Connection failed'' \<rparr>"

definition onmessage :: "nat \<Rightarrow> string \<Rightarrow> bridge \<Rightarrow> bridge" where
  "onmessage i payload st = st"

definition sendAudioToRobot :: "8 word list \<Rightarrow> bridge \<Rightarrow> bridge" where
  "sendAudioToRobot pcmData st =
     (case wsRef st of
        None \<Rightarrow> st
      | Some i \<Rightarrow>
          if wsReadyState st = Some OPEN then
            let st1 = st\<lparr> wire := wire st @ [(i, Pcm pcmData)],
                          bytesSentRef := bytesSentRef st + length pcmData \<rparr>
            in if bytesSentRef st1 mod 51200 < length pcmData
               then st1\<lparr> checkpoints := checkpoints st1 @ [bytesSentRef st1],
                         bytesSent := bytesSentRef st1 \<rparr>
               else st1
          else st)"

text \<open>The peak loop of the frame handler, from the element \<open>x\<close> on: \<^verbatim>\<open>abs > maxSample\<close>
  is \<open>jsLess maxSample abs\<close>, false for NaN.\<close>

fun peakLoop :: "sample list \<Rightarrow> sample \<Rightarrow> sample" where
  "peakLoop [] maxSample = maxSample"
| "peakLoop (x # rest) maxSample =
     peakLoop rest (if jsLess maxSample (absNumber x) then absNumber x else maxSample)"

text \<open>\<^verbatim>\<open>processor.onaudioprocess\<close>. A \<^verbatim>\<open>RangeError\<close> of the resampler leaves the handler
  at that call.\<close>

definition onaudioprocess :: "sample list \<Rightarrow> bridge \<Rightarrow> bridge" where
  "onaudioprocess inputData st =
     (let st1 = st\<lparr> totalFrames := totalFrames st + 1 \<rparr>;
          maxSample = peakLoop inputData (Num 0);
          st2 = (if totalFrames st1 mod 50 = 1
                 then st1\<lparr> frameDiagnostics := frameDiagnostics st1 @ [totalFrames st1] \<rparr>
                 else st1)
      in if jsLess maxSample (Num silenceThreshold) then st2
         else
           let st3 = st2\<lparr> chunkCount := chunkCount st2 + 1,
                          calls := calls st2 @ [CallResample] \<rparr>
           in case resampleAudio (arrayLimit st3) inputData (sampleRate st3)
                     TARGET_SAMPLE_RATE of
                Inl e \<Rightarrow> st3
              | Inr resampledData \<Rightarrow>
                  let st4 = st3\<lparr> calls := calls st3 @ [CallEncode] \<rparr>;
                      pcmData = float32ToPCM16 resampledData;
                      st5 = st4\<lparr> calls := calls st4 @ [CallSend] \<rparr>
                  in sendAudioToRobot pcmData st5)"

text \<open>
  A sample that the silence gate is meant to ignore: a number of magnitude at most
  \<open>10^-4\<close> or, reading \<^verbatim>\<open>0.0001\<close> as the source's constant, a binary32 number of
  magnitude at most that constant.
\<close>

fun quietSample :: "sample \<Rightarrow> bool" where
  "quietSample (Num x) = (\<bar>x\<bar> \<le> 1 / 10000 \<or> (is_float32 x \<and> \<bar>x\<bar> \<le> silenceThreshold))"
| "quietSample _ = False"

text \<open>\<^verbatim>\<open>processRemoteAudioTrack\<close>: unless a processor is attached, one is created on the
  audio context (48000 Hz), with its frame handler and that handler's counters at 0.\<close>

definition processRemoteAudioTrack :: "bridge \<Rightarrow> bridge" where
  "processRemoteAudioTrack st =
     (if hasProcessorRef st then st
      else st\<lparr> hasProcessorRef := True, sampleRate := 48000, totalFrames := 0,
               chunkCount := 0 \<rparr>)"

definition cleanupAudioProcessor :: "bridge \<Rightarrow> bridge" where
  "cleanupAudioProcessor st = st\<lparr> hasProcessorRef := False \<rparr>"

text \<open>\<^verbatim>\<open>WebSocket.close()\<close>: a socket that is connecting or open starts closing.\<close>

definition closeSocket :: "nat \<Rightarrow> bridge \<Rightarrow> bridge" where
  "closeSocket i st =
     (if i < length (sockets st) \<and> (sockets st ! i = CONNECTING \<or> sockets st ! i = OPEN)
      then st\<lparr> sockets := (sockets st)[i := CLOSING] \<rparr> else st)"

text \<open>The cleanup of the connection effect.\<close>

definition connectionCleanup :: "bridge \<Rightarrow> bridge" where
  "connectionCleanup st =
     (case wsRef st of
        None \<Rightarrow> st
      | Some i \<Rightarrow>
          let st1 = (if wsReadyState st = Some OPEN
                     then st\<lparr> wire := wire st @ [(i, Finish)] \<rparr> else st)
          in (closeSocket i st1)\<lparr> wsRef := None \<rparr>)"

text \<open>\<^verbatim>\<open>handleTrackSubscribed\<close> for an audio track.\<close>

definition handleTrackSubscribed :: "bridge \<Rightarrow> bridge" where
  "handleTrackSubscribed st =
     processRemoteAudioTrack
       (if wsRef st = None \<or> wsReadyState st \<noteq> Some OPEN then connectToRobot st else st)"

text \<open>
  What can happen to the hook. The first six events are the hook's own callbacks: the
  effects run with \<open>enabled\<close> true (the connection effect connects, the room effect
  installs its listeners); the room effect finds an audio track already subscribed; the
  cleanups of both effects run (on a change of \<open>enabled\<close> or on unmount), the connection
  effect's first; a track is subscribed or unsubscribed; the processor delivers a frame.
  The socket events are the browser's, which changes the socket's ready state and then
  runs the handler installed on that socket: an open event on a connecting socket, the
  start of a closing handshake by the peer on an open one, a close event (clean, or
  after a failure, in which case the error event comes first) on any socket not yet
  closed.
\<close>

datatype event =
    EffectEnabled
  | ExistingAudioTrack
  | EffectCleanup
  | AudioTrackSubscribed
  | AudioTrackUnsubscribed
  | AudioProcess "sample list"
  | SocketOpen nat
  | SocketClosing nat
  | SocketClose nat
  | SocketFail nat
  | SocketMessage nat string

definition possible :: "bridge \<Rightarrow> event \<Rightarrow> bool" where
  "possible st ev = (case ev of
       AudioProcess frame \<Rightarrow> hasProcessorRef st
     | SocketOpen i \<Rightarrow> i < length (sockets st) \<and> sockets st ! i = CONNECTING
     | SocketClosing i \<Rightarrow> i < length (sockets st) \<and> sockets st ! i = OPEN
     | SocketClose i \<Rightarrow> i < length (sockets st) \<and> sockets st ! i \<noteq> CLOSED
     | SocketFail i \<Rightarrow> i < length (sockets st) \<and> sockets st ! i \<noteq> CLOSED
     | SocketMessage i payload \<Rightarrow> i < length (sockets st) \<and> sockets st ! i = OPEN
     | _ \<Rightarrow> True)"

definition handle :: "bridge \<Rightarrow> event \<Rightarrow> bridge" where
  "handle st ev = (case ev of
       EffectEnabled \<Rightarrow> connectToRobot st
     | ExistingAudioTrack \<Rightarrow> processRemoteAudioTrack st
     | EffectCleanup \<Rightarrow> cleanupAudioProcessor (connectionCleanup st)
     | AudioTrackSubscribed \<Rightarrow> handleTrackSubscribed st
     | AudioTrackUnsubscribed \<Rightarrow> cleanupAudioProcessor st
     | AudioProcess frame \<Rightarrow> onaudioprocess frame st
     | SocketOpen i \<Rightarrow> onopen i (st\<lparr> sockets := (sockets st)[i := OPEN] \<rparr>)
     | SocketClosing i \<Rightarrow> st\<lparr> sockets := (sockets st)[i := CLOSING] \<rparr>
     | SocketClose i \<Rightarrow> onclose i (st\<lparr> sockets := (sockets st)[i := CLOSED] \<rparr>)
     | SocketFail i \<Rightarrow>
         onclose i (onerror i (st\<lparr> sockets := (sockets st)[i := CLOSED] \<rparr>))
     | SocketMessage i payload \<Rightarrow> onmessage i payload st)"

text \<open>A run of events; \<open>None\<close> when some event could not happen where it stands.\<close>

fun run :: "bridge \<Rightarrow> event list \<Rightarrow> bridge option" where
  "run st [] = Some st"
| "run st (ev # evs) = (if possible st ev then run (handle st ev) evs else None)"

definition openSockets :: "bridge \<Rightarrow> nat" where
  "openSockets st = length (filter (\<lambda>r. r = OPEN) (sockets st))"

section \<open>Transcript debounce relay (\<^verbatim>\<open>RobotTTSBridge\<close>)\<close>

text \<open>
  A JavaScript string is a sequence of UTF-16 code units, which is what \<^verbatim>\<open>length\<close>
  counts. \<^verbatim>\<open>trim\<close> removes the language's white space and line terminators from both
  ends.
\<close>

type_synonym jsstring = "16 word list"

definition isWhiteSpace :: "16 word \<Rightarrow> bool" where
  "isWhiteSpace c =
     (c \<in> {0x9, 0xA, 0xB, 0xC, 0xD, 0x20, 0xA0, 0x1680, 0x2028, 0x2029, 0x202F, 0x205F,
            0x3000, 0xFEFF}
      \<or> (0x2000 \<le> c \<and> c \<le> 0x200A))"

definition trim :: "jsstring \<Rightarrow> jsstring" where
  "trim s = rev (dropWhile isWhiteSpace (rev (dropWhile isWhiteSpace s)))"

text \<open>An entry of \<^verbatim>\<open>useTranscriptions()\<close>: \<open>text'\<close> is \<open>None\<close> when the entry has no
  text.\<close>

record transcription =
  identity :: jsstring
  text' :: "jsstring option"

text \<open>
  The component's three references, and what surrounds them: the timeouts pending in the
  browser (\<open>timers\<close>, by id, with \<open>nextTimer\<close> the id the next \<^verbatim>\<open>setTimeout\<close> returns),
  whether the last run of the effect returned a cleanup function, and the requests issued
  to the speech endpoint, oldest first.
\<close>

record tts =
  sentTextsRef :: "jsstring set"
  pendingTextRef :: jsstring
  debounceTimerRef :: "nat option"
  timers :: "nat list"
  nextTimer :: nat
  cleanup :: bool
  dispatched :: "jsstring list"

definition initialTts :: tts where
  "initialTts = \<lparr> sentTextsRef = {}, pendingTextRef = [], debounceTimerRef = None,
     timers = [], nextTimer = 1, cleanup = False, dispatched = [] \<rparr>"

text \<open>\<^verbatim>\<open>if (debounceTimerRef.current) clearTimeout(debounceTimerRef.current)\<close>\<close>

definition clearDebounceTimer :: "tts \<Rightarrow> tts" where
  "clearDebounceTimer st = (case debounceTimerRef st of
       None \<Rightarrow> st
     | Some t \<Rightarrow> st\<lparr> timers := removeAll t (timers st) \<rparr>)"

text \<open>The body of the effect, for the transcriptions and the local identity it sees.\<close>

definition effectBody :: "transcription list \<Rightarrow> jsstring \<Rightarrow> tts \<Rightarrow> tts" where
  "effectBody transcriptions localIdentity st =
     (let agentTranscriptions = filter (\<lambda>t. identity t \<noteq> localIdentity) transcriptions in
      if agentTranscriptions = [] then st\<lparr> cleanup := False \<rparr>
      else case map_option trim (text' (last agentTranscriptions)) of
        None \<Rightarrow> st\<lparr> cleanup := False \<rparr>
      | Some txt \<Rightarrow>
          if txt = [] \<or> length txt < 2 then st\<lparr> cleanup := False \<rparr>
          else if txt \<in> sentTextsRef st then st\<lparr> cleanup := False \<rparr>
          else
            let st1 = clearDebounceTimer (st\<lparr> pendingTextRef := txt \<rparr>)
            in st1\<lparr> debounceTimerRef := Some (nextTimer st1),
                    timers := timers st1 @ [nextTimer st1],
                    nextTimer := nextTimer st1 + 1,
                    cleanup := True \<rparr>)"

text \<open>The callback given to \<^verbatim>\<open>setTimeout\<close>.\<close>

definition timerCallback :: "tts \<Rightarrow> tts" where
  "timerCallback st =
     (let currentText = pendingTextRef st in
      if currentText \<noteq> [] \<and> currentText \<notin> sentTextsRef st
      then st\<lparr> sentTextsRef := insert currentText (sentTextsRef st),
               dispatched := dispatched st @ [currentText] \<rparr>
      else st)"

text \<open>
  What can happen to the component: the transcriptions or the local identity change
  (the framework runs the cleanup left by the previous run, then the effect), a pending
  timeout expires, a request settles with a status or fails (both are only logged), the
  component unmounts.
\<close>

datatype tts_event =
    Transcriptions "transcription list" jsstring
  | TimerExpired nat
  | FetchResolved nat
  | FetchRejected
  | Unmount

definition runCleanup :: "tts \<Rightarrow> tts" where
  "runCleanup st = (if cleanup st then clearDebounceTimer st else st)"

definition ttsStep :: "tts \<Rightarrow> tts_event \<Rightarrow> tts" where
  "ttsStep st ev = (case ev of
       Transcriptions transcriptions localIdentity \<Rightarrow>
         effectBody transcriptions localIdentity (runCleanup st)
     | TimerExpired t \<Rightarrow>
         if t \<in> set (timers st)
         then timerCallback (st\<lparr> timers := removeAll t (timers st) \<rparr>) else st
     | FetchResolved status \<Rightarrow> st
     | FetchRejected \<Rightarrow> st
     | Unmount \<Rightarrow> (runCleanup st)\<lparr> cleanup := False \<rparr>)"

definition ttsRun :: "tts \<Rightarrow> tts_event list \<Rightarrow> tts" where
  "ttsRun st evs = foldl ttsStep st evs"

text \<open>The trimmed text of the latest transcription that is not the local participant's,
  as the effect computes it; \<open>None\<close> when there is no such transcription or it has no
  text.\<close>

definition latestAgentText :: "transcription list \<Rightarrow> jsstring \<Rightarrow> jsstring option" where
  "latestAgentText transcriptions localIdentity =
     (let agentTranscriptions = filter (\<lambda>t. identity t \<noteq> localIdentity) transcriptions in
      if agentTranscriptions = [] then None
      else map_option trim (text' (last agentTranscriptions)))"

text \<open>What every reachable state satisfies: no text was dispatched twice, and every
  dispatched text is in the set of sent texts.\<close>

definition dispatchInv :: "tts \<Rightarrow> bool" where
  "dispatchInv st = (distinct (dispatched st) \<and> set (dispatched st) \<subseteq> sentTextsRef st)"

section \<open>Properties of the rounding\<close>

text \<open>The exponent brackets its argument, rounding errs by at most half a quantum, and
  a number that fits the significand is left alone.\<close>

lemmas fl_eval = fl64_def fl32_def fround_def binexp_def ilog2.simps pow2_def
  roundTiesToEven_def Let_def

lemma pow2_powi: "pow2 k = 2 powi k"
  by (simp add: pow2_def power_int_def field_simps)

lemma pow2_pos: "0 < pow2 k"
  by (simp add: pow2_powi)

lemma pow2_add: "pow2 (a + b) = pow2 a * pow2 b"
  by (simp add: pow2_powi power_int_add)

lemma pow2_mono: "a \<le> b \<Longrightarrow> pow2 a \<le> pow2 b"
  by (simp add: pow2_powi power_int_increasing)

lemma pow2_nat: "pow2 (int n) = 2 ^ n"
  by (simp add: pow2_def)

lemma ilog2_bounds: "0 < n \<Longrightarrow> 2 ^ ilog2 n \<le> n \<and> n < 2 ^ Suc (ilog2 n)"
proof (induction n rule: ilog2.induct)
  case (1 n)
  show ?case
  proof (cases "n < 2")
    case True
    with 1(2) have "n = 1" by simp
    then show ?thesis by (simp add: ilog2.simps)
  next
    case False
    then have pos: "0 < n div 2" by simp
    from 1(1)[OF False pos]
    have ih: "2 ^ ilog2 (n div 2) \<le> n div 2" "n div 2 < 2 ^ Suc (ilog2 (n div 2))" by simp_all
    have e: "ilog2 n = Suc (ilog2 (n div 2))" using False by (subst ilog2.simps) simp
    from ih(1) have "2 * 2 ^ ilog2 (n div 2) \<le> n" by linarith
    moreover from ih(2) have "n < 2 * 2 ^ Suc (ilog2 (n div 2))" by linarith
    ultimately show ?thesis using e by simp
  qed
qed

lemma real_pow2_le: "(2::nat) ^ k \<le> n \<Longrightarrow> (2::real) ^ k \<le> real n"
  by (metis of_nat_le_iff of_nat_numeral of_nat_power)

lemma binexp_bounds:
  assumes "x \<noteq> 0"
  shows "pow2 (binexp x) \<le> \<bar>x\<bar>" and "\<bar>x\<bar> < pow2 (binexp x + 1)"
proof -
  have "pow2 (binexp x) \<le> \<bar>x\<bar> \<and> \<bar>x\<bar> < pow2 (binexp x + 1)"
  proof (cases "1 \<le> \<bar>x\<bar>")
    case True
    define n where "n = nat \<lfloor>\<bar>x\<bar>\<rfloor>"
    have npos: "0 < n" using True by (simp add: n_def)
    have e: "binexp x = int (ilog2 n)" using True by (simp add: binexp_def n_def)
    have n1: "real n \<le> \<bar>x\<bar>" unfolding n_def using True by simp
    have n2: "\<bar>x\<bar> < real n + 1" unfolding n_def using True by simp
    from ilog2_bounds[OF npos]
    have b1: "(2::nat) ^ ilog2 n \<le> n" and b2: "n < 2 ^ Suc (ilog2 n)" by simp_all
    have r1: "(2::real) ^ ilog2 n \<le> real n" by (rule real_pow2_le[OF b1])
    from b2 have "(2::nat) ^ Suc (ilog2 n) \<le> 2 ^ Suc (ilog2 n)" "n + 1 \<le> 2 ^ Suc (ilog2 n)"
      by simp_all
    then have "real (n + 1) \<le> real ((2::nat) ^ Suc (ilog2 n))"
      using of_nat_le_iff by blast
    then have r2: "real n + 1 \<le> (2::real) ^ Suc (ilog2 n)" by simp
    have p1: "pow2 (binexp x) = 2 ^ ilog2 n" by (simp add: e pow2_nat)
    have p2: "pow2 (binexp x + 1) = 2 ^ Suc (ilog2 n)"
      using pow2_nat[of "Suc (ilog2 n)"] by (simp add: e add.commute)
    from r1 n1 have "(2::real) ^ ilog2 n \<le> \<bar>x\<bar>" by (rule order_trans)
    moreover from n2 r2 have "\<bar>x\<bar> < (2::real) ^ Suc (ilog2 n)" by (rule less_le_trans)
    ultimately show ?thesis unfolding p1 p2 by blast
  next
    case False
    define y where "y = 1 / \<bar>x\<bar>"
    have ypos: "1 < y" using False assms by (simp add: y_def)
    define m where "m = nat (\<lceil>y\<rceil> - 1)"
    have mpos: "0 < m" using ypos unfolding m_def by linarith
    have e: "binexp x = - int (Suc (ilog2 m))" using False by (simp add: binexp_def m_def y_def)
    have m1: "real m < y" unfolding m_def using ypos by linarith
    have m2: "y \<le> real m + 1" unfolding m_def using ypos by linarith
    from ilog2_bounds[OF mpos]
    have b1: "(2::nat) ^ ilog2 m \<le> m" and b2: "m < 2 ^ Suc (ilog2 m)" by simp_all
    have r1: "(2::real) ^ ilog2 m \<le> real m" by (rule real_pow2_le[OF b1])
    from b2 have "m + 1 \<le> 2 ^ Suc (ilog2 m)" by simp
    then have "real (m + 1) \<le> real ((2::nat) ^ Suc (ilog2 m))"
      using of_nat_le_iff by blast
    then have r2: "real m + 1 \<le> (2::real) ^ Suc (ilog2 m)" by simp
    from r1 m1 have l: "(2::real) ^ ilog2 m < y" by (rule le_less_trans)
    from m2 r2 have u: "y \<le> (2::real) ^ Suc (ilog2 m)" by (rule order_trans)
    have xy: "\<bar>x\<bar> = 1 / y" using assms by (simp add: y_def)
    have "nat (int (ilog2 m) + 1) = Suc (ilog2 m)" by simp
    then have p1: "pow2 (binexp x) = 1 / 2 ^ Suc (ilog2 m)"
      by (simp add: e pow2_def)
    have p2: "pow2 (binexp x + 1) = 1 / 2 ^ ilog2 m"
      by (simp add: e pow2_def)
    have ypos': "0 < y" using ypos by simp
    have q1: "1 / (2::real) ^ Suc (ilog2 m) \<le> 1 / y"
      by (rule divide_left_mono[OF u]) (use ypos' in simp_all)
    have q2: "1 / y < 1 / (2::real) ^ ilog2 m"
      by (rule divide_strict_left_mono[OF l]) (use ypos' in simp_all)
    show ?thesis unfolding p1 p2 xy using q1 q2 by blast
  qed
  then show "pow2 (binexp x) \<le> \<bar>x\<bar>" and "\<bar>x\<bar> < pow2 (binexp x + 1)" by simp_all
qed

lemma roundTiesToEven_err: "\<bar>of_int (roundTiesToEven y) - y\<bar> \<le> 1 / 2"
proof -
  have "of_int \<lfloor>y\<rfloor> \<le> y" "y < of_int \<lfloor>y\<rfloor> + 1" by linarith+
  then show ?thesis
    by (auto simp: roundTiesToEven_def Let_def)
qed

lemma roundTiesToEven_of_int [simp]: "roundTiesToEven (of_int n) = n"
  by (simp add: roundTiesToEven_def)


lemma pow2_less_cancel: "pow2 a < pow2 b \<Longrightarrow> a < b"
  using pow2_mono[of b a] by (cases "a < b") simp_all

lemma pow2_0 [simp]: "pow2 0 = 1"
  by (simp add: pow2_def)

lemma pow2_diff_nat: "b \<le> a \<Longrightarrow> pow2 a / pow2 b = 2 ^ nat (a - b)"
proof -
  assume le: "b \<le> a"
  have "pow2 a = pow2 ((a - b) + b)" by simp
  also have "\<dots> = pow2 (a - b) * pow2 b" by (rule pow2_add)
  also have "pow2 (a - b) = 2 ^ nat (a - b)" using le by (simp add: pow2_def)
  finally show ?thesis using pow2_pos[of b] by simp
qed

lemma pow2_numerals: "pow2 1 = 2" "pow2 (- 53) = 1 / 2 ^ 53" "pow2 24 = 2 ^ 24"
  by (simp_all add: pow2_def)

lemma fround_error:
  assumes "x \<noteq> 0"
  shows "\<bar>fround p emin x - x\<bar> \<le> pow2 (max (binexp x - int p + 1) emin) / 2"
proof -
  define k where "k = max (binexp x - int p + 1) emin"
  have kpos: "0 < pow2 k" by (rule pow2_pos)
  have f: "fround p emin x = of_int (roundTiesToEven (x / pow2 k)) * pow2 k"
    using assms by (simp add: fround_def k_def Let_def)
  have "fround p emin x - x = (of_int (roundTiesToEven (x / pow2 k)) - x / pow2 k) * pow2 k"
    using kpos by (simp add: f field_simps)
  then have "\<bar>fround p emin x - x\<bar> = \<bar>of_int (roundTiesToEven (x / pow2 k)) - x / pow2 k\<bar> * pow2 k"
    using kpos by (simp add: abs_mult)
  also have "\<dots> \<le> (1 / 2) * pow2 k"
    by (rule mult_right_mono[OF roundTiesToEven_err]) (use kpos in simp)
  finally show ?thesis by (simp add: k_def)
qed

lemma fl64_rel_error:
  assumes "pow2 (- 1022) \<le> \<bar>x\<bar>"
  shows "\<bar>fl64 x - x\<bar> \<le> \<bar>x\<bar> / 2 ^ 53"
proof -
  have nz: "x \<noteq> 0" using assms pow2_pos[of "- 1022"] by auto
  from binexp_bounds[OF nz] assms have "pow2 (- 1022) < pow2 (binexp x + 1)" by linarith
  then have "- 1022 < binexp x + 1" by (rule pow2_less_cancel)
  then have m: "max (binexp x - int 53 + 1) (- 1074) = binexp x + (- 53) + 1" by simp
  have "pow2 (binexp x + (- 53) + 1) / 2 = pow2 (binexp x) / 2 ^ 53"
    by (simp only: pow2_add pow2_numerals) simp
  also have "\<dots> \<le> \<bar>x\<bar> / 2 ^ 53"
    using binexp_bounds(1)[OF nz] by (simp add: divide_right_mono)
  finally show ?thesis
    using fround_error[OF nz, of 53 "- 1074"] unfolding fl64_def m by linarith
qed

lemma fround_representable:
  assumes x: "x = of_int n * pow2 k" and n: "\<bar>n\<bar> < 2 ^ p" and k: "emin \<le> k"
  shows "fround p emin x = x"
proof (cases "x = 0")
  case True
  then show ?thesis by (simp add: fround_def)
next
  case False
  define kq where "kq = max (binexp x - int p + 1) emin"
  have "pow2 (binexp x) \<le> \<bar>x\<bar>" by (rule binexp_bounds(1)[OF False])
  also have "\<bar>x\<bar> = \<bar>of_int n\<bar> * pow2 k" using pow2_pos[of k] by (simp add: x abs_mult)
  also have "\<dots> < 2 ^ p * pow2 k"
  proof (rule mult_strict_right_mono)
    from n have "of_int \<bar>n\<bar> < (of_int (2 ^ p) :: real)" by (simp only: of_int_less_iff)
    then show "\<bar>of_int n :: real\<bar> < 2 ^ p" by simp
  qed (rule pow2_pos)
  also have "\<dots> = pow2 (int p + k)" by (simp add: pow2_add pow2_nat)
  finally have "binexp x < int p + k" by (rule pow2_less_cancel)
  then have le: "kq \<le> k" using k by (simp add: kq_def)
  have "x / pow2 kq = of_int n * (pow2 k / pow2 kq)" by (simp add: x)
  also have "\<dots> = of_int n * 2 ^ nat (k - kq)" by (simp add: pow2_diff_nat[OF le])
  also have "\<dots> = of_int (n * 2 ^ nat (k - kq))" by simp
  finally have q: "x / pow2 kq = of_int (n * 2 ^ nat (k - kq))" .
  have "fround p emin x = of_int (roundTiesToEven (x / pow2 kq)) * pow2 kq"
    using False by (simp add: fround_def kq_def Let_def)
  also have "\<dots> = (x / pow2 kq) * pow2 kq"
    by (simp only: q roundTiesToEven_of_int)
  also have "\<dots> = x" using pow2_pos[of kq] by simp
  finally show ?thesis .
qed

lemma fl64_of_int: "\<bar>n\<bar> < 2 ^ 53 \<Longrightarrow> fl64 (of_int n) = of_int n"
  unfolding fl64_def by (rule fround_representable[where n = n and k = 0]) simp_all

lemma fl64_of_nat: "n < 2 ^ 53 \<Longrightarrow> fl64 (real n) = real n"
  using fl64_of_int[of "int n"] by simp

lemma float32_form:
  assumes "is_float32 x"
  shows "\<exists>n k. x = of_int n * pow2 k \<and> \<bar>n\<bar> \<le> 2 ^ 24 \<and> - 149 \<le> k"
proof (cases "x = 0")
  case True
  then have "x = of_int 0 * pow2 0 \<and> \<bar>0::int\<bar> \<le> 2 ^ 24 \<and> (- 149 :: int) \<le> 0" by simp
  then show ?thesis by blast
next
  case False
  define kq where "kq = max (binexp x - int 24 + 1) (- 149)"
  define n where "n = roundTiesToEven (x / pow2 kq)"
  have kpos: "0 < pow2 kq" by (rule pow2_pos)
  have "fl32 x = of_int n * pow2 kq"
    using False by (simp add: fl32_def fround_def kq_def n_def Let_def)
  with assms have e: "x = of_int n * pow2 kq" by (simp add: is_float32_def)
  have "binexp x + 1 - kq \<le> 24" by (simp add: kq_def)
  have "\<bar>x\<bar> < pow2 (binexp x + 1)" by (rule binexp_bounds(2)[OF False])
  also have "\<dots> \<le> pow2 (24 + kq)" by (rule pow2_mono) (simp add: kq_def)
  also have "\<dots> = 2 ^ 24 * pow2 kq" by (simp only: pow2_add pow2_numerals)
  finally have "\<bar>x\<bar> / pow2 kq < 2 ^ 24" using kpos by (simp add: field_simps)
  then have "\<bar>x / pow2 kq\<bar> < 2 ^ 24" using kpos by (simp add: abs_divide)
  moreover have "\<bar>of_int n - x / pow2 kq\<bar> \<le> 1 / 2"
    unfolding n_def by (rule roundTiesToEven_err)
  ultimately have "\<bar>of_int n :: real\<bar> < 2 ^ 24 + 1" by linarith
  then have "of_int \<bar>n\<bar> < (of_int (2 ^ 24 + 1) :: real)" by simp
  then have "\<bar>n\<bar> < 2 ^ 24 + 1" by (simp only: of_int_less_iff)
  then have "\<bar>n\<bar> \<le> 2 ^ 24" by simp
  moreover have "- 149 \<le> kq" by (simp add: kq_def)
  ultimately show ?thesis using e by blast
qed

lemma float32_times_int_exact:
  assumes "is_float32 s" and c: "\<bar>c\<bar> < 2 ^ 28"
  shows "fl64 (s * of_int c) = s * of_int c"
proof -
  from float32_form[OF assms(1)] obtain n k
    where s: "s = of_int n * pow2 k" and n: "\<bar>n\<bar> \<le> 2 ^ 24" and k: "- 149 \<le> k" by blast
  have "\<bar>n * c\<bar> = \<bar>n\<bar> * \<bar>c\<bar>" by (simp add: abs_mult)
  also have "\<dots> \<le> 2 ^ 24 * \<bar>c\<bar>" by (rule mult_right_mono[OF n]) simp
  also have "\<dots> < 2 ^ 24 * 2 ^ 28" using c by simp
  finally have b: "\<bar>n * c\<bar> < 2 ^ 53" by simp
  show ?thesis unfolding fl64_def
    by (rule fround_representable[where n = "n * c" and k = k])
       (use b k in \<open>simp_all add: s\<close>)
qed

lemma pow2_neg_nat: "pow2 (- int n) = 1 / 2 ^ n"
  by (simp add: pow2_powi power_int_minus field_simps)

lemma normal_from_bound:
  assumes "1 / 2 ^ n \<le> y" "n \<le> 1022"
  shows "pow2 (- 1022) \<le> y"
proof -
  have "pow2 (- 1022) \<le> pow2 (- int n)" by (rule pow2_mono) (use assms(2) in simp)
  also have "\<dots> = 1 / 2 ^ n" by (rule pow2_neg_nat)
  finally show ?thesis using assms(1) by simp
qed

lemma fl64_bounds_pos:
  assumes "pow2 (- 1022) \<le> y"
  shows "y * (1 - 1 / 2 ^ 53) \<le> fl64 y" and "fl64 y \<le> y * (1 + 1 / 2 ^ 53)"
proof -
  have ypos: "0 < y" using assms pow2_pos[of "- 1022"] by linarith
  have ay: "\<bar>y\<bar> = y" using ypos by simp
  have e: "\<bar>fl64 y - y\<bar> \<le> y / 2 ^ 53"
    using fl64_rel_error[of y] assms unfolding ay by blast
  have d: "y * (1 - 1 / 2 ^ 53) = y - y / 2 ^ 53" "y * (1 + 1 / 2 ^ 53) = y + y / 2 ^ 53"
    by (simp_all add: algebra_simps)
  from e show "y * (1 - 1 / 2 ^ 53) \<le> fl64 y" and "fl64 y \<le> y * (1 + 1 / 2 ^ 53)"
    unfolding d by linarith+
qed

lemma fl64_zero [simp]: "fl64 0 = 0"
  by (simp add: fl64_def fround_def)


section \<open>The encoded buffer\<close>

lemma length_encodeSample [simp]: "length (encodeSample s) = 2"
  by (simp add: encodeSample_def setInt16LE_def)

lemma length_float32ToPCM16: "length (float32ToPCM16 xs) = 2 * length xs"
  by (induction xs) (simp_all add: float32ToPCM16_def)

lemma pcm_bytes:
  "i < length xs \<Longrightarrow>
     float32ToPCM16 xs ! (2 * i) = encodeSample (xs ! i) ! 0
   \<and> float32ToPCM16 xs ! (2 * i + 1) = encodeSample (xs ! i) ! 1"
proof (induction xs arbitrary: i)
  case Nil
  then show ?case by simp
next
  case (Cons a xs)
  have c: "float32ToPCM16 (a # xs) = encodeSample a @ float32ToPCM16 xs"
    by (simp add: float32ToPCM16_def)
  show ?case
  proof (cases i)
    case 0
    then show ?thesis by (simp add: c nth_append)
  next
    case (Suc j)
    with Cons.prems have "j < length xs" by simp
    from Cons.IH[OF this] show ?thesis by (simp add: c nth_append Suc)
  qed
qed

lemma cat_bytes: "word_cat (ucast (drop_bit 8 w) :: 8 word) (ucast w :: 8 word) = (w :: 16 word)"
  by (rule bit_word_eqI) (auto simp: bit_simps)

lemma getInt16LE_pcm:
  "i < length xs \<Longrightarrow>
   getInt16LE (float32ToPCM16 xs) (2 * i) = sint (toInt16 (scaleSample (clampSample (xs ! i))))"
  using pcm_bytes[of i xs]
  by (simp add: getInt16LE_def encodeSample_def setInt16LE_def cat_bytes)

lemma sint_word16: "- 32768 \<le> v \<Longrightarrow> v \<le> 32767 \<Longrightarrow> sint (word_of_int v :: 16 word) = v"
  by (simp add: sint_sbintrunc' signed_take_bit_int_eq_self)

lemma float32_one: "is_float32 1" "is_float32 (- 1)"
  by (simp_all add: is_float32_def fl_eval)

lemma clampSample_Num:
  "clampSample (Num x) = Num (if x < - 1 then - 1 else if 1 < x then 1 else x)"
  by (simp add: clampSample_def max_def min_def)

lemma clampSample_special:
  "clampSample PosInf = Num 1" "clampSample NegInf = Num (- 1)" "clampSample NaN = NaN"
  by (simp_all add: clampSample_def)

lemma scaleSample_exact:
  assumes "is_float32 c"
  shows "scaleSample (Num c) = Num (if c < 0 then c * 32768 else c * 32767)"
  using float32_times_int_exact[OF assms, of 32768] float32_times_int_exact[OF assms, of 32767]
  by (simp add: scaleSample_def)

lemma jsTruncate_range:
  assumes "- 1 \<le> s" "s \<le> 1"
  shows "- 32768 \<le> jsTruncate (if s < 0 then s * 32768 else s * 32767)"
    and "jsTruncate (if s < 0 then s * 32768 else s * 32767) \<le> 32767"
proof -
  show "- 32768 \<le> jsTruncate (if s < 0 then s * 32768 else s * 32767)"
  proof (cases "s < 0")
    case True
    have "real_of_int (- 32768) \<le> s * 32768" using assms by simp
    then have "- 32768 \<le> \<lceil>s * 32768\<rceil>" by linarith
    then show ?thesis using True by (simp add: jsTruncate_def)
  next
    case False
    then have "0 \<le> \<lfloor>s * 32767\<rfloor>" by simp
    then show ?thesis using False by (simp add: jsTruncate_def)
  qed
  show "jsTruncate (if s < 0 then s * 32768 else s * 32767) \<le> 32767"
  proof (cases "s < 0")
    case True
    then have "\<lceil>s * 32768\<rceil> \<le> 0" by (simp add: ceiling_le_iff)
    then show ?thesis using True by (simp add: jsTruncate_def)
  next
    case False
    have "s * 32767 \<le> real_of_int 32767" using assms by simp
    then have "\<lfloor>s * 32767\<rfloor> \<le> 32767" by linarith
    then show ?thesis using False by (simp add: jsTruncate_def)
  qed
qed

text \<open>The value stored for a clamped number \<open>c\<close>, and for each kind of sample.\<close>

lemma encoded_clamped:
  assumes c: "is_float32 c" "- 1 \<le> c" "c \<le> 1"
  shows "sint (toInt16 (scaleSample (Num c)))
           = jsTruncate (if c < 0 then c * 32768 else c * 32767)"
  using sint_word16[OF jsTruncate_range[OF c(2) c(3)] ]
  by (simp add: scaleSample_exact[OF c(1)])

lemma encoded_value:
  assumes "i < length xs" "xs ! i = Num x" "is_float32 x"
  shows "getInt16LE (float32ToPCM16 xs) (2 * i) =
           (let c = (if x < - 1 then - 1 else if 1 < x then 1 else x);
                scaled = (if c < 0 then c * 32768 else c * 32767)
            in if 0 \<le> scaled then \<lfloor>scaled\<rfloor> else \<lceil>scaled\<rceil>)"
proof -
  define c where "c = (if x < - 1 then - 1 else if 1 < x then 1 else x)"
  have f: "is_float32 c" using assms(3) float32_one by (simp add: c_def)
  have r: "- 1 \<le> c" "c \<le> 1" by (simp_all add: c_def)
  have "getInt16LE (float32ToPCM16 xs) (2 * i) = sint (toInt16 (scaleSample (Num c)))"
    using getInt16LE_pcm[OF assms(1)] by (simp add: assms(2) clampSample_Num c_def)
  also have "\<dots> = jsTruncate (if c < 0 then c * 32768 else c * 32767)"
    by (rule encoded_clamped[OF f r])
  finally show ?thesis by (simp add: jsTruncate_def Let_def c_def)
qed

lemma encoded_special:
  assumes "i < length xs"
  shows "xs ! i = PosInf \<Longrightarrow> getInt16LE (float32ToPCM16 xs) (2 * i) = 32767"
    and "xs ! i = NegInf \<Longrightarrow> getInt16LE (float32ToPCM16 xs) (2 * i) = - 32768"
    and "xs ! i = NaN \<Longrightarrow> getInt16LE (float32ToPCM16 xs) (2 * i) = 0"
proof -
  have p: "sint (toInt16 (scaleSample (Num 1))) = 32767"
    using encoded_clamped[OF float32_one(1)] by (simp add: jsTruncate_def)
  have n: "sint (toInt16 (scaleSample (Num (- 1)))) = - 32768"
    using encoded_clamped[OF float32_one(2)] by (simp add: jsTruncate_def)
  show "xs ! i = PosInf \<Longrightarrow> getInt16LE (float32ToPCM16 xs) (2 * i) = 32767"
    using getInt16LE_pcm[OF assms] p by (simp add: clampSample_special)
  show "xs ! i = NegInf \<Longrightarrow> getInt16LE (float32ToPCM16 xs) (2 * i) = - 32768"
    using getInt16LE_pcm[OF assms] n by (simp add: clampSample_special)
  show "xs ! i = NaN \<Longrightarrow> getInt16LE (float32ToPCM16 xs) (2 * i) = 0"
    using getInt16LE_pcm[OF assms] by (simp add: clampSample_special scaleSample_def)
qed

text \<open>The two bytes are those of the value, low byte first.\<close>

lemma encoded_bytes:
  assumes "i < length xs"
  shows "float32ToPCM16 xs ! (2 * i)
           = ucast (word_of_int (getInt16LE (float32ToPCM16 xs) (2 * i)) :: 16 word)"
    and "float32ToPCM16 xs ! (2 * i + 1)
           = ucast (drop_bit 8 (word_of_int (getInt16LE (float32ToPCM16 xs) (2 * i)) :: 16 word))"
  using pcm_bytes[OF assms] getInt16LE_pcm[OF assms]
  by (simp_all add: encodeSample_def setInt16LE_def)

section \<open>Arithmetic of the resampler\<close>

text \<open>How far the two rounded divisions and the rounded product can stray.\<close>

lemma ratio_bounds:
  assumes i: "0 < inR" and o: "0 < outR" and ob: "outR < 2 ^ 53" and ib: "inR < 2 ^ 53"
  shows "real inR * (1 - 1 / 2 ^ 53) \<le> resampleRatio inR outR * real outR"
    and "resampleRatio inR outR * real outR \<le> real inR * (1 + 1 / 2 ^ 53)"
    and "0 < resampleRatio inR outR"
    and "resampleRatio inR outR < 2 ^ 54"
proof -
  define a where "a = real inR / real outR"
  define r where "r = resampleRatio inR outR"
  have ro: "0 < real outR" "real outR < 2 ^ 53" using o ob by simp_all
  have ri: "1 \<le> real inR" "real inR < 2 ^ 53" using i ib by simp_all
  have ao: "a * real outR = real inR" using ro by (simp add: a_def)
  have apos: "0 < a" using ro ri by (simp add: a_def)
  have "1 / 2 ^ 53 \<le> a" unfolding a_def using ro ri by (simp add: field_simps)
  then have "pow2 (- 1022) \<le> a" by (rule normal_from_bound) simp
  from fl64_bounds_pos[OF this]
  have b: "a * (1 - 1 / 2 ^ 53) \<le> r" "r \<le> a * (1 + 1 / 2 ^ 53)"
    by (simp_all add: r_def resampleRatio_def a_def)
  from b(1) have "a * (1 - 1 / 2 ^ 53) * real outR \<le> r * real outR"
    by (rule mult_right_mono) (use ro in simp)
  then show "real inR * (1 - 1 / 2 ^ 53) \<le> resampleRatio inR outR * real outR"
    using ao by (simp add: r_def mult.assoc mult.commute mult.left_commute)
  from b(2) have "r * real outR \<le> a * (1 + 1 / 2 ^ 53) * real outR"
    by (rule mult_right_mono) (use ro in simp)
  then show "resampleRatio inR outR * real outR \<le> real inR * (1 + 1 / 2 ^ 53)"
    using ao by (simp add: r_def mult.assoc mult.commute mult.left_commute)
  have "0 < a * (1 - 1 / 2 ^ 53)" using apos by simp
  with b(1) show "0 < resampleRatio inR outR" by (simp add: r_def)
  have "a \<le> real inR" unfolding a_def using ro ri o by (simp add: field_simps)
  then have "a * (1 + 1 / 2 ^ 53) \<le> real inR * (1 + 1 / 2 ^ 53)" by simp
  with b(2) have "r \<le> real inR * (1 + 1 / 2 ^ 53)" by (rule order_trans)
  moreover have "real inR * (1 + 1 / 2 ^ 53) < 2 ^ 54" using ri(2) by simp
  ultimately show "resampleRatio inR outR < 2 ^ 54" unfolding r_def by (rule le_less_trans)
qed

lemma quotient_error:
  assumes len: "0 < len" and i: "0 < inR" and o: "0 < outR"
    and ib: "inR < 2 ^ 53" and N: "len * outR < 2 ^ 51"
  shows "\<bar>fl64 (real len / resampleRatio inR outR) * real inR - real (len * outR)\<bar> < 1"
proof -
  define r where "r = resampleRatio inR outR"
  define y where "y = real len / r"
  define q where "q = fl64 y"
  define W where "W = y * real inR"
  define Q where "Q = q * real inR"
  define R where "R = r * real outR"
  define M where "M = real (len * outR)"
  have "outR \<le> len * outR" using len by (cases len) simp_all
  from this N have "outR < 2 ^ 51" by (rule le_less_trans)
  then have ob: "outR < 2 ^ 53" by simp
  note rb = ratio_bounds[OF i o ob ib, folded r_def]
  have rl: "1 \<le> real len" using len by simp
  have ri: "0 < real inR" using i by simp
  have ypos: "0 < y" unfolding y_def using rb(3) rl by simp
  have "1 / 2 ^ 54 \<le> y" unfolding y_def using rb(3) rb(4) rl by (simp add: field_simps)
  then have "pow2 (- 1022) \<le> y" by (rule normal_from_bound) simp
  from fl64_bounds_pos[OF this]
  have qb: "y * (1 - 1 / 2 ^ 53) \<le> q" "q \<le> y * (1 + 1 / 2 ^ 53)" by (simp_all add: q_def)
  have Q1: "W * (1 - 1 / 2 ^ 53) \<le> Q"
  proof -
    from qb(1) have "y * (1 - 1 / 2 ^ 53) * real inR \<le> q * real inR"
      by (rule mult_right_mono) (use ri in simp)
    then show ?thesis by (simp add: W_def Q_def mult.assoc mult.commute mult.left_commute)
  qed
  have Q2: "Q \<le> W * (1 + 1 / 2 ^ 53)"
  proof -
    from qb(2) have "q * real inR \<le> y * (1 + 1 / 2 ^ 53) * real inR"
      by (rule mult_right_mono) (use ri in simp)
    then show ?thesis by (simp add: W_def Q_def mult.assoc mult.commute mult.left_commute)
  qed
  have MR: "M = y * R" unfolding M_def y_def R_def using rb(3) by simp
  have M1: "W * (1 - 1 / 2 ^ 53) \<le> M"
  proof -
    from rb(1) have "y * (real inR * (1 - 1 / 2 ^ 53)) \<le> y * R"
      unfolding R_def by (rule mult_left_mono) (use ypos in simp)
    then show ?thesis by (simp add: MR W_def mult.assoc)
  qed
  have M2: "M \<le> W * (1 + 1 / 2 ^ 53)"
  proof -
    from rb(2) have "y * R \<le> y * (real inR * (1 + 1 / 2 ^ 53))"
      unfolding R_def by (rule mult_left_mono) (use ypos in simp)
    then show ?thesis by (simp add: MR W_def mult.assoc)
  qed
  have Mb: "M < 2 ^ 51" unfolding M_def using N
    by (metis of_nat_less_iff of_nat_numeral of_nat_power)
  have d: "W * (1 - 1 / 2 ^ 53) = W - W / 9007199254740992"
    "W * (1 + 1 / 2 ^ 53) = W + W / 9007199254740992"
    by (simp_all add: algebra_simps)
  have Mb': "M < 2251799813685248" using Mb by simp
  have "\<bar>Q - M\<bar> < 1" using Q1 Q2 M1 M2 Mb' unfolding d by linarith
  then show ?thesis by (simp add: Q_def M_def q_def y_def r_def)
qed


lemma resampledLength_unfold:
  "resampledLength cap x inR outR =
     (if inR = outR then Some (length x)
      else if outR = 0 then Some 0
      else if resampleRatio inR outR = 0 then (if x = [] then Some 0 else None)
      else if \<not> allocates cap (outputLength (length x) (resampleRatio inR outR)) then None
      else Some (outputLength (length x) (resampleRatio inR outR)))"
  by (simp add: resampledLength_def resampleAudio_def Let_def)

lemma output_length_cases:
  assumes len: "0 < len" and i: "0 < inR" and o: "0 < outR"
    and ib: "inR < 2 ^ 53" and N: "len * outR < 2 ^ 51"
  shows "outputLength len (resampleRatio inR outR) = len * outR div inR
       \<or> (inR dvd len * outR
          \<and> outputLength len (resampleRatio inR outR) + 1 = len * outR div inR)"
proof -
  define q where "q = fl64 (real len / resampleRatio inR outR)"
  define m where "m = len * outR div inR"
  define j where "j = len * outR mod inR"
  have e: "len * outR = m * inR + j" by (simp add: m_def j_def)
  have jb: "j < inR" using i by (simp add: j_def)
  have ri: "0 < real inR" using i by simp
  have Mr: "real (len * outR) = real m * real inR + real j"
    by (simp only: e of_nat_add of_nat_mult)
  from quotient_error[OF len i o ib N]
  have Q: "\<bar>q * real inR - (real m * real inR + real j)\<bar> < 1"
    unfolding q_def Mr .
  have up: "q < real m + 1"
  proof -
    have "real j + 1 \<le> real inR" using jb by linarith
    moreover have "(real m + 1) * real inR = real m * real inR + real inR"
      by (simp add: algebra_simps)
    ultimately have "q * real inR < (real m + 1) * real inR" using Q by linarith
    then show ?thesis using ri by (simp only: mult_less_cancel_right_pos)
  qed
  have ol: "outputLength len (resampleRatio inR outR) = nat \<lfloor>q\<rfloor>"
    by (simp add: outputLength_def q_def)
  show ?thesis
  proof (cases "j = 0")
    case False
    then have "1 \<le> real j" by simp
    with Q have "real m * real inR < q * real inR" by linarith
    then have "real m < q" using ri by (simp only: mult_less_cancel_right_pos)
    with up have "\<lfloor>q\<rfloor> = int m" by linarith
    then show ?thesis by (simp add: ol m_def)
  next
    case True
    then have dv: "inR dvd len * outR" by (simp add: j_def dvd_eq_mod_eq_0)
    have "0 < len * outR" using len o by simp
    with e True have mpos: "0 < m" by (cases m) simp_all
    have "1 \<le> real inR" using i by simp
    moreover have "(real m - 1) * real inR = real m * real inR - real inR"
      by (simp add: algebra_simps)
    moreover have "real j = 0" using True by simp
    ultimately have "(real m - 1) * real inR < q * real inR" using Q by linarith
    then have "real m - 1 < q" using ri by (simp only: mult_less_cancel_right_pos)
    with up have "\<lfloor>q\<rfloor> = int m \<or> \<lfloor>q\<rfloor> = int m - 1" by linarith
    then have "nat \<lfloor>q\<rfloor> = m \<or> nat \<lfloor>q\<rfloor> + 1 = m" using mpos by auto
    then show ?thesis using dv by (auto simp: ol m_def)
  qed
qed

lemma output_length_multiple:
  assumes o: "0 < outR" and k: "inR = k * outR" and ib: "inR < 2 ^ 53"
    and dv: "inR dvd len * outR" and lb: "len < 2 ^ 53"
  shows "outputLength len (resampleRatio inR outR) = len * outR div inR"
proof (cases "k = 0")
  case True
  then show ?thesis by (simp add: k resampleRatio_def outputLength_def)
next
  case False
  have "k \<le> k * outR" using o by (cases outR) simp_all
  moreover have "k * outR < 2 ^ 53" using ib by (simp only: k)
  ultimately have kb: "k < 2 ^ 53" by (rule le_less_trans)
  have r: "resampleRatio inR outR = real k"
    using o by (simp add: resampleRatio_def k fl64_of_nat[OF kb])
  from dv have "k dvd len" using o by (simp add: k)
  then obtain m where m: "len = k * m" by (rule dvdE)
  have "m \<le> k * m" using False by (cases k) simp_all
  moreover have "k * m < 2 ^ 53" using lb by (simp only: m)
  ultimately have mb: "m < 2 ^ 53" by (rule le_less_trans)
  have "real len / real k = real m" using False by (simp add: m)
  then have "outputLength len (resampleRatio inR outR) = m"
    by (simp add: outputLength_def r fl64_of_nat[OF mb])
  moreover have "len * outR div inR = m" using False o by (simp add: m k)
  ultimately show ?thesis by simp
qed






section \<open>Byte counter and telemetry checkpoints\<close>

lemma crossing_iff:
  fixes c b :: nat
  shows "((c + b) mod 51200 < b) = (c div 51200 < (c + b) div 51200)"
proof
  assume h: "(c + b) mod 51200 < b"
  have e: "(c + b) = 51200 * ((c + b) div 51200) + (c + b) mod 51200" by simp
  from h e have "c < 51200 * ((c + b) div 51200)" by linarith
  then show "c div 51200 < (c + b) div 51200"
    by (simp add: div_less_iff_less_mult mult.commute)
next
  assume h: "c div 51200 < (c + b) div 51200"
  then have "c < 51200 * ((c + b) div 51200)"
    by (simp add: div_less_iff_less_mult mult.commute)
  moreover have "(c + b) = 51200 * ((c + b) div 51200) + (c + b) mod 51200" by simp
  ultimately show "(c + b) mod 51200 < b" by linarith
qed

text \<open>
  C7. The byte counter never decreases. A buffer is transmitted exactly when the
  referenced socket is open; otherwise the call changes nothing. A transmitted buffer
  adds its byte length to the counter, and a checkpoint (carrying the new counter) is
  written exactly when the quotient of the counter by 51200 increases, that is, when the
  send takes the counter onto or across a multiple of 51200. This holds for buffers of
  any length, in particular for those shorter than 51200 bytes.
\<close>

theorem byte_counter_checkpoint:
  "bytesSentRef st \<le> bytesSentRef (sendAudioToRobot pcmData st)
   \<and> (wsReadyState st \<noteq> Some OPEN \<longrightarrow> sendAudioToRobot pcmData st = st)
   \<and> (wsReadyState st = Some OPEN \<longrightarrow>
        bytesSentRef (sendAudioToRobot pcmData st) = bytesSentRef st + length pcmData
        \<and> (checkpoints (sendAudioToRobot pcmData st) =
             (if bytesSentRef st div 51200 < (bytesSentRef st + length pcmData) div 51200
              then checkpoints st @ [bytesSentRef st + length pcmData]
              else checkpoints st)))"
  by (auto simp: sendAudioToRobot_def wsReadyState_def Let_def crossing_iff
      split: option.splits)

text \<open>An open socket at 51000 bytes: a 300-byte buffer crosses 51200 and is
  reported; a closed socket changes nothing.\<close>

theorem byte_counter_checkpoint_witness:
  "wsReadyState (initialBridge\<lparr> sockets := [OPEN], wsRef := Some 0, bytesSentRef := 51000 \<rparr>)
     = Some OPEN
   \<and> length (replicate 300 (0 :: 8 word)) < 51200
   \<and> bytesSentRef (sendAudioToRobot (replicate 300 0)
        (initialBridge\<lparr> sockets := [OPEN], wsRef := Some 0, bytesSentRef := 51000 \<rparr>)) = 51300
   \<and> checkpoints (sendAudioToRobot (replicate 300 0)
        (initialBridge\<lparr> sockets := [OPEN], wsRef := Some 0, bytesSentRef := 51000 \<rparr>)) = [51300]
   \<and> wsReadyState (initialBridge\<lparr> sockets := [CLOSED], wsRef := Some 0 \<rparr>) \<noteq> Some OPEN
   \<and> sendAudioToRobot [1, 2] (initialBridge\<lparr> sockets := [CLOSED], wsRef := Some 0 \<rparr>)
       = initialBridge\<lparr> sockets := [CLOSED], wsRef := Some 0 \<rparr>"
  using byte_counter_checkpoint
          [of "initialBridge\<lparr> sockets := [OPEN], wsRef := Some 0, bytesSentRef := 51000 \<rparr>"
              "replicate 300 0"]
        byte_counter_checkpoint
          [of "initialBridge\<lparr> sockets := [CLOSED], wsRef := Some 0 \<rparr>" "[1, 2]"]
  by (simp add: wsReadyState_def initialBridge_def)

section \<open>Resampling at equal rates\<close>

text \<open>
  C10. For every frame and every rate, resampling from the rate to itself returns the
  frame unchanged; on the store of buffers, the reference returned is the argument's and
  the store is the same: no array is created, so this holds whatever the engine would
  allocate, even nothing.
\<close>

theorem resample_identity:
  "resampleAudio cap x r r = Inr x
   \<and> (b < length h \<longrightarrow> resampleAudio_ref cap h b r r = Some (Inr (h, b)))"
  by (simp add: resampleAudio_def resampleAudio_ref_def)

theorem resample_identity_witness:
  "resampleAudio 0 [Num (1 / 2), NaN, Num 0] 48000 48000 = Inr [Num (1 / 2), NaN, Num 0]
   \<and> (1 :: nat) < length [ [Num 0], [Num (1 / 4), Num 1] ]
   \<and> resampleAudio_ref 0 [ [Num 0], [Num (1 / 4), Num 1] ] 1 16000 16000
       = Some (Inr ([ [Num 0], [Num (1 / 4), Num 1] ], 1))"
  using resample_identity
          [of 0 "[Num (1 / 2), NaN, Num 0]" 48000 1 "[ [Num 0], [Num (1 / 4), Num 1] ]"]
        resample_identity [of 0 "[]" 16000 1 "[ [Num 0], [Num (1 / 4), Num 1] ]"]
  by simp

section \<open>Silence gate\<close>

lemma silenceThreshold_value: "silenceThreshold = 7378697629483821 / 2 ^ 66"
  by (simp add: silenceThreshold_def fl_eval)

lemma threshold_not_float32:
  "\<not> is_float32 silenceThreshold" "\<not> is_float32 (- silenceThreshold)"
  by (simp_all add: silenceThreshold_value is_float32_def fl_eval)

lemma quiet_below_threshold:
  assumes "quietSample (Num x)"
  shows "\<bar>x\<bar> < silenceThreshold"
proof -
  from assms consider "\<bar>x\<bar> \<le> 1 / 10000" | "is_float32 x" "\<bar>x\<bar> \<le> silenceThreshold"
    by auto
  then show ?thesis
  proof cases
    case 1
    then show ?thesis by (simp add: silenceThreshold_value)
  next
    case 2
    have "\<bar>x\<bar> \<noteq> silenceThreshold"
    proof
      assume "\<bar>x\<bar> = silenceThreshold"
      then have "x = silenceThreshold \<or> x = - silenceThreshold" by linarith
      with 2(1) threshold_not_float32 show False by auto
    qed
    with 2(2) show ?thesis by simp
  qed
qed

lemma peakLoop_quiet:
  "\<forall>s \<in> set xs. quietSample s \<Longrightarrow> m < silenceThreshold
     \<Longrightarrow> jsLess (peakLoop xs (Num m)) (Num silenceThreshold)"
proof (induction xs arbitrary: m)
  case Nil
  then show ?case by simp
next
  case (Cons s rest)
  from Cons.prems(1) have qs: "quietSample s" and qr: "\<forall>s \<in> set rest. quietSample s"
    by simp_all
  from qs obtain x where s: "s = Num x" by (cases s) simp_all
  from qs have "\<bar>x\<bar> < silenceThreshold" unfolding s by (rule quiet_below_threshold)
  with Cons.prems(2) have "(if m < \<bar>x\<bar> then \<bar>x\<bar> else m) < silenceThreshold" by simp
  from Cons.IH[OF qr this]
  have "jsLess (peakLoop rest (Num (if m < \<bar>x\<bar> then \<bar>x\<bar> else m))) (Num silenceThreshold)" .
  moreover have "peakLoop (s # rest) (Num m)
                   = peakLoop rest (Num (if m < \<bar>x\<bar> then \<bar>x\<bar> else m))"
    by (simp add: s)
  ultimately show ?case by (simp only:)
qed

text \<open>
  C2. A frame all of whose samples lie within \<open>[-0.0001, 0.0001]\<close> is dropped by the
  frame handler: no resample, encode or send call is made, nothing is handed to the
  socket, and the byte counter, its displayed copy and the checkpoints are unchanged.
  The gate is the strict test \<open>maxSample < 0.0001\<close>; the closed interval is covered
  because the constant is the double just above \<open>10^-4\<close> and no binary32 sample equals
  it (\<open>quietSample\<close> admits both readings of the bound).
\<close>

theorem silent_frame_dropped:
  assumes "\<forall>s \<in> set inputData. quietSample s"
  shows "calls (onaudioprocess inputData st) = calls st
       \<and> wire (onaudioprocess inputData st) = wire st
       \<and> bytesSentRef (onaudioprocess inputData st) = bytesSentRef st
       \<and> bytesSent (onaudioprocess inputData st) = bytesSent st
       \<and> checkpoints (onaudioprocess inputData st) = checkpoints st
       \<and> chunkCount (onaudioprocess inputData st) = chunkCount st"
proof -
  have "0 < silenceThreshold" by (simp add: silenceThreshold_value)
  from peakLoop_quiet[OF assms this] show ?thesis
    by (simp add: onaudioprocess_def Let_def)
qed

theorem silent_frame_dropped_witness:
  "quietSample (Num 0) \<and> quietSample (Num (1 / 10000))
   \<and> quietSample (Num (- (13743895 / 2 ^ 37))) \<and> quietSample (Num (1 / 2 ^ 20))
   \<and> calls (onaudioprocess [Num 0, Num (1 / 10000), Num (- (13743895 / 2 ^ 37)), Num (1 / 2 ^ 20)]
        (initialBridge\<lparr> sockets := [OPEN], wsRef := Some 0, bytesSentRef := 7 \<rparr>)) = []
   \<and> wire (onaudioprocess [Num 0, Num (1 / 10000), Num (- (13743895 / 2 ^ 37)), Num (1 / 2 ^ 20)]
        (initialBridge\<lparr> sockets := [OPEN], wsRef := Some 0, bytesSentRef := 7 \<rparr>)) = []
   \<and> bytesSentRef (onaudioprocess [Num 0, Num (1 / 10000), Num (- (13743895 / 2 ^ 37)), Num (1 / 2 ^ 20)]
        (initialBridge\<lparr> sockets := [OPEN], wsRef := Some 0, bytesSentRef := 7 \<rparr>)) = 7"
proof -
  have q: "quietSample (Num 0) \<and> quietSample (Num (1 / 10000))
     \<and> quietSample (Num (- (13743895 / 2 ^ 37))) \<and> quietSample (Num (1 / 2 ^ 20))"
    by (simp add: silenceThreshold_value is_float32_def fl_eval)
  then have a: "\<forall>s \<in> set [Num 0, Num (1 / 10000), Num (- (13743895 / 2 ^ 37)), Num (1 / 2 ^ 20)].
                  quietSample s"
    by simp
  show ?thesis
    using q silent_frame_dropped [OF a,
            of "initialBridge\<lparr> sockets := [OPEN], wsRef := Some 0, bytesSentRef := 7 \<rparr>"]
    by (simp add: initialBridge_def)
qed

text \<open>
  For contrast, the frame of the spec's clean scenario: 4096 samples at 48000 Hz, one of
  them 0.5, on an open socket. It is resampled to 1365 samples, encoded to 2730 bytes and
  sent as one message.
\<close>

lemma lessThan_Num_mono: "jsLess s (Num a) \<Longrightarrow> a \<le> b \<Longrightarrow> jsLess s (Num b)"
  by (cases s) simp_all

lemma peakLoop_ge: "\<not> jsLess m (Num c) \<Longrightarrow> \<not> jsLess (peakLoop xs m) (Num c)"
proof (induction xs arbitrary: m)
  case Nil
  then show ?case by simp
next
  case (Cons x rest)
  from Cons.prems
  have "\<not> jsLess (if jsLess m (absNumber x) then absNumber x else m) (Num c)"
    by (cases m; cases x) auto
  then show ?case by (simp add: Cons.IH)
qed

lemma peakLoop_member: "Num x \<in> set xs \<Longrightarrow> \<not> jsLess (peakLoop xs m) (Num \<bar>x\<bar>)"
proof (induction xs arbitrary: m)
  case Nil
  then show ?case by simp
next
  case (Cons y rest)
  show ?case
  proof (cases "y = Num x")
    case True
    have "\<not> jsLess (if jsLess m (absNumber y) then absNumber y else m) (Num \<bar>x\<bar>)"
      by (simp add: True)
    then show ?thesis by (simp add: peakLoop_ge)
  next
    case False
    with Cons.prems have "Num x \<in> set rest" by auto
    then show ?thesis by (simp add: Cons.IH)
  qed
qed

lemma clean_frame_scenario:
  fixes frame :: "sample list"
  assumes len: "length frame = 4096" and loud: "Num (1 / 2) \<in> set frame"
  defines "st \<equiv> initialBridge\<lparr> sockets := [OPEN], wsRef := Some 0 \<rparr>"
  shows "\<exists>pcm. wire (onaudioprocess frame st) = [(0, Pcm pcm)] \<and> length pcm = 2730
       \<and> bytesSentRef (onaudioprocess frame st) = 2730
       \<and> calls (onaudioprocess frame st) = [CallResample, CallEncode, CallSend]"
proof -
  have r: "resampleRatio 48000 16000 = 3" by (simp add: resampleRatio_def fl_eval)
  have n: "outputLength 4096 3 = 1365" by (simp add: outputLength_def fl_eval)
  have res: "resampleAudio maxTypedArrayLength frame 48000 TARGET_SAMPLE_RATE
               = Inr (map (outputSample frame 3) [0..<1365])"
    by (simp add: resampleAudio_def TARGET_SAMPLE_RATE_def r len n allocates_def
        maxTypedArrayLength_def)
  have "\<not> jsLess (peakLoop frame (Num 0)) (Num \<bar>1 / 2\<bar>)"
    by (rule peakLoop_member[OF loud])
  then have p: "\<not> jsLess (peakLoop frame (Num 0)) (Num silenceThreshold)"
    using lessThan_Num_mono[of "peakLoop frame (Num 0)" silenceThreshold "\<bar>1 / 2\<bar>"]
    by (auto simp add: silenceThreshold_value)
  have l: "length (float32ToPCM16 (map (outputSample frame 3) [0..<1365])) = 2730"
    by (simp add: length_float32ToPCM16)
  show ?thesis
    using p l
    by (simp add: onaudioprocess_def Let_def st_def initialBridge_def res sendAudioToRobot_def
        wsReadyState_def)
qed

section \<open>PCM encoding\<close>

text \<open>
  C4. The buffer has exactly two bytes per sample, and the two bytes of sample \<open>i\<close> are
  the signed 16-bit value \<open>v\<close> stored for it, low byte first. For a sample that is a
  (binary32) number \<open>x\<close>, \<open>v\<close> is got from \<open>x\<close> as follows: \<open>x\<close> is clamped to
  \<open>[-1, 1]\<close> (below \<open>-1\<close> it becomes \<open>-1\<close>, above \<open>1\<close> it becomes \<open>1\<close>), the clamped
  value is multiplied by 32768 when negative and by 32767 otherwise, and the fraction of
  the product is dropped (the integer conversion of \<^verbatim>\<open>setInt16\<close>). The statement
  writes the clamp and the scaling out, independently of the encoder. An infinite
  sample is clamped likewise and stored as 32767 or \<open>-32768\<close>; NaN, which has no clamped
  value, is stored as 0. The value lies in the signed 16-bit range, so nothing wraps.
\<close>

theorem float32ToPCM16_encoding:
  "length (float32ToPCM16 xs) = 2 * length xs
   \<and> (\<forall>i < length xs.
        (let v = getInt16LE (float32ToPCM16 xs) (2 * i)
         in - 32768 \<le> v \<and> v \<le> 32767
          \<and> float32ToPCM16 xs ! (2 * i) = ucast (word_of_int v :: 16 word)
          \<and> float32ToPCM16 xs ! (2 * i + 1) = ucast (drop_bit 8 (word_of_int v :: 16 word))
          \<and> (case xs ! i of
                Num x \<Rightarrow> is_float32 x \<longrightarrow>
                  v = (let c = (if x < - 1 then - 1 else if 1 < x then 1 else x);
                           scaled = (if c < 0 then c * 32768 else c * 32767)
                       in if 0 \<le> scaled then \<lfloor>scaled\<rfloor> else \<lceil>scaled\<rceil>)
              | PosInf \<Rightarrow> v = 32767
              | NegInf \<Rightarrow> v = - 32768
              | NaN \<Rightarrow> v = 0)))"
proof (intro conjI allI impI)
  show "length (float32ToPCM16 xs) = 2 * length xs" by (rule length_float32ToPCM16)
next
  fix i
  assume h: "i < length xs"
  define v where "v = getInt16LE (float32ToPCM16 xs) (2 * i)"
  have "v = sint (toInt16 (scaleSample (clampSample (xs ! i))))"
    unfolding v_def by (rule getInt16LE_pcm[OF h])
  then have r: "- 32768 \<le> v" "v \<le> 32767"
    using sint_range_size[of "toInt16 (scaleSample (clampSample (xs ! i)))"]
    by (simp_all add: word_size)
  have b: "float32ToPCM16 xs ! (2 * i) = ucast (word_of_int v :: 16 word)"
          "float32ToPCM16 xs ! (2 * i + 1) = ucast (drop_bit 8 (word_of_int v :: 16 word))"
    unfolding v_def by (rule encoded_bytes[OF h])+
  have c: "case xs ! i of
             Num x \<Rightarrow> is_float32 x \<longrightarrow>
               v = (let c = (if x < - 1 then - 1 else if 1 < x then 1 else x);
                        scaled = (if c < 0 then c * 32768 else c * 32767)
                    in if 0 \<le> scaled then \<lfloor>scaled\<rfloor> else \<lceil>scaled\<rceil>)
           | PosInf \<Rightarrow> v = 32767
           | NegInf \<Rightarrow> v = - 32768
           | NaN \<Rightarrow> v = 0"
  proof (cases "xs ! i")
    case (Num x)
    show ?thesis unfolding v_def using encoded_value[OF h Num] by (simp add: Num)
  next
    case PosInf
    show ?thesis unfolding v_def using encoded_special(1)[OF h PosInf] by (simp add: PosInf)
  next
    case NegInf
    show ?thesis unfolding v_def using encoded_special(2)[OF h NegInf] by (simp add: NegInf)
  next
    case NaN
    show ?thesis unfolding v_def using encoded_special(3)[OF h NaN] by (simp add: NaN)
  qed
  show "let v = getInt16LE (float32ToPCM16 xs) (2 * i)
         in - 32768 \<le> v \<and> v \<le> 32767
          \<and> float32ToPCM16 xs ! (2 * i) = ucast (word_of_int v :: 16 word)
          \<and> float32ToPCM16 xs ! (2 * i + 1) = ucast (drop_bit 8 (word_of_int v :: 16 word))
          \<and> (case xs ! i of
                Num x \<Rightarrow> is_float32 x \<longrightarrow>
                  v = (let c = (if x < - 1 then - 1 else if 1 < x then 1 else x);
                           scaled = (if c < 0 then c * 32768 else c * 32767)
                       in if 0 \<le> scaled then \<lfloor>scaled\<rfloor> else \<lceil>scaled\<rceil>)
              | PosInf \<Rightarrow> v = 32767
              | NegInf \<Rightarrow> v = - 32768
              | NaN \<Rightarrow> v = 0)"
    using r b c unfolding Let_def v_def by blast
qed

text \<open>
  An instance, with samples out of range, an infinity and NaN: \<open>0.5\<close> is stored as
  16383 (bytes \<open>FF 3F\<close>), \<open>-3\<close> as \<open>-32768\<close> (bytes \<open>00 80\<close>), \<open>1.5\<close> as 32767 (bytes
  \<open>FF 7F\<close>), minus infinity as \<open>-32768\<close> and NaN as 0.
\<close>

theorem float32ToPCM16_encoding_witness:
  "length (float32ToPCM16 [Num (1 / 2), Num (- 3), Num (3 / 2), NegInf, NaN]) = 10
   \<and> is_float32 (1 / 2) \<and> is_float32 (- 3) \<and> is_float32 (3 / 2)
   \<and> getInt16LE (float32ToPCM16 [Num (1 / 2), Num (- 3), Num (3 / 2), NegInf, NaN]) 0 = 16383
   \<and> float32ToPCM16 [Num (1 / 2), Num (- 3), Num (3 / 2), NegInf, NaN] ! 0 = 0xFF
   \<and> float32ToPCM16 [Num (1 / 2), Num (- 3), Num (3 / 2), NegInf, NaN] ! 1 = 0x3F
   \<and> getInt16LE (float32ToPCM16 [Num (1 / 2), Num (- 3), Num (3 / 2), NegInf, NaN]) 2 = - 32768
   \<and> float32ToPCM16 [Num (1 / 2), Num (- 3), Num (3 / 2), NegInf, NaN] ! 2 = 0x00
   \<and> float32ToPCM16 [Num (1 / 2), Num (- 3), Num (3 / 2), NegInf, NaN] ! 3 = 0x80
   \<and> getInt16LE (float32ToPCM16 [Num (1 / 2), Num (- 3), Num (3 / 2), NegInf, NaN]) 4 = 32767
   \<and> float32ToPCM16 [Num (1 / 2), Num (- 3), Num (3 / 2), NegInf, NaN] ! 4 = 0xFF
   \<and> float32ToPCM16 [Num (1 / 2), Num (- 3), Num (3 / 2), NegInf, NaN] ! 5 = 0x7F
   \<and> getInt16LE (float32ToPCM16 [Num (1 / 2), Num (- 3), Num (3 / 2), NegInf, NaN]) 6 = - 32768
   \<and> getInt16LE (float32ToPCM16 [Num (1 / 2), Num (- 3), Num (3 / 2), NegInf, NaN]) 8 = 0"
proof -
  have f: "is_float32 (1 / 2)" "is_float32 (- 3)" "is_float32 (3 / 2)"
    by (simp_all add: is_float32_def fl_eval)
  define xs where "xs = [Num (1 / 2), Num (- 3), Num (3 / 2), NegInf, NaN]"
  note t = float32ToPCM16_encoding [of xs]
  have l: "length (float32ToPCM16 xs) = 10" using t by (simp add: xs_def)
  have e0: "getInt16LE (float32ToPCM16 xs) 0 = 16383
          \<and> float32ToPCM16 xs ! 0 = 0xFF \<and> float32ToPCM16 xs ! 1 = 0x3F"
    using t [THEN conjunct2, rule_format, of 0] f(1) by (simp add: xs_def Let_def)
  have e1: "getInt16LE (float32ToPCM16 xs) 2 = - 32768
          \<and> float32ToPCM16 xs ! 2 = 0x00 \<and> float32ToPCM16 xs ! 3 = 0x80"
    using t [THEN conjunct2, rule_format, of 1] f(2) by (simp add: xs_def Let_def)
  have e2: "getInt16LE (float32ToPCM16 xs) 4 = 32767
          \<and> float32ToPCM16 xs ! 4 = 0xFF \<and> float32ToPCM16 xs ! 5 = 0x7F"
    using t [THEN conjunct2, rule_format, of 2] f(3) by (simp add: xs_def Let_def)
  have e3: "getInt16LE (float32ToPCM16 xs) 6 = - 32768"
    using t [THEN conjunct2, rule_format, of 3] by (simp add: xs_def Let_def)
  have e4: "getInt16LE (float32ToPCM16 xs) 8 = 0"
    using t [THEN conjunct2, rule_format, of 4] by (simp add: xs_def Let_def)
  show ?thesis using l f e0 e1 e2 e3 e4 unfolding xs_def by simp
qed

section \<open>PCM round trip\<close>

text \<open>
  C6 names no decoder. With the usual decoding of 16-bit PCM, which divides the stored
  value by 32768, the claim fails: the sample \<open>1 - 2^-16\<close>, which is its own clamp, is
  stored as 32766 and decoded to \<open>32766/32768\<close>, further than \<open>1/32767\<close> from the sample.
\<close>

theorem pcm16_round_trip_counterexample:
  "is_float32 (1 - 1 / 65536)
   \<and> - 1 \<le> (1 - 1 / 65536 :: real) \<and> (1 - 1 / 65536 :: real) \<le> 1
   \<and> getInt16LE (float32ToPCM16 [Num (1 - 1 / 65536)]) 0 = 32766
   \<and> decodeBy32768 (getInt16LE (float32ToPCM16 [Num (1 - 1 / 65536)]) 0) = 32766 / 32768
   \<and> 1 / 32767
        < \<bar>decodeBy32768 (getInt16LE (float32ToPCM16 [Num (1 - 1 / 65536)]) 0) - (1 - 1 / 65536)\<bar>"
proof -
  have f: "is_float32 (1 - 1 / 65536)" by (simp add: is_float32_def fl_eval)
  from encoded_value[of 0 "[Num (1 - 1 / 65536)]" "1 - 1 / 65536"] f
  have g: "getInt16LE (float32ToPCM16 [Num (1 - 1 / 65536)]) 0 = 32766"
    by (simp add: Let_def)
  show ?thesis using f g by (simp add: decodeBy32768_def)
qed

text \<open>
  C6, amended. Let \<open>c\<close> be the clamp to \<open>[-1, 1]\<close> of a sample that is a (binary32)
  number or an infinity, written out independently of the encoder, and let \<open>v\<close>
  be the 16-bit value stored for the sample. Then \<open>v\<close> decoded by the inverse of the
  encoder's scaling (\<open>v/32768\<close> when negative, \<open>v/32767\<close> otherwise) is within \<open>1/32767\<close>
  of \<open>c\<close>, and so is \<open>v/32767\<close>; \<open>v/32768\<close> is within \<open>1/16384\<close> of \<open>c\<close>.
\<close>

theorem pcm16_round_trip:
  assumes "i < length xs"
    and "(xs ! i = Num x \<and> is_float32 x
            \<and> c = (if x < - 1 then - 1 else if 1 < x then 1 else x))
         \<or> (xs ! i = PosInf \<and> c = 1) \<or> (xs ! i = NegInf \<and> c = - 1)"
  shows "\<bar>decodeSample (getInt16LE (float32ToPCM16 xs) (2 * i)) - c\<bar> \<le> 1 / 32767
       \<and> \<bar>decodeBy32767 (getInt16LE (float32ToPCM16 xs) (2 * i)) - c\<bar> \<le> 1 / 32767
       \<and> \<bar>decodeBy32768 (getInt16LE (float32ToPCM16 xs) (2 * i)) - c\<bar> \<le> 1 / 16384"
proof -
  define v where "v = getInt16LE (float32ToPCM16 xs) (2 * i)"
  have r: "- 1 \<le> c" "c \<le> 1" using assms(2) by auto
  have g: "v = (if 0 \<le> (if c < 0 then c * 32768 else c * 32767)
                then \<lfloor>if c < 0 then c * 32768 else c * 32767\<rfloor>
                else \<lceil>if c < 0 then c * 32768 else c * 32767\<rceil>)"
    using assms(2)
  proof (elim disjE conjE)
    assume a: "xs ! i = Num x" "is_float32 x"
      "c = (if x < - 1 then - 1 else if 1 < x then 1 else x)"
    from encoded_value[OF assms(1) a(1) a(2)] show ?thesis
      unfolding v_def Let_def a(3) .
  next
    assume a: "xs ! i = PosInf" "c = 1"
    from encoded_special(1)[OF assms(1) a(1)] show ?thesis by (simp add: v_def a(2))
  next
    assume a: "xs ! i = NegInf" "c = - 1"
    from encoded_special(2)[OF assms(1) a(1)] show ?thesis by (simp add: v_def a(2))
  qed
  have "\<bar>decodeSample v - c\<bar> \<le> 1 / 32767
       \<and> \<bar>decodeBy32767 v - c\<bar> \<le> 1 / 32767
       \<and> \<bar>decodeBy32768 v - c\<bar> \<le> 1 / 16384"
  proof (cases "c < 0")
    case True
    then have gv: "v = \<lceil>c * 32768\<rceil>" using g by (simp add: mult_less_0_iff)
    have c1: "c * 32768 \<le> of_int v" and c2: "of_int v < c * 32768 + 1"
      unfolding gv by linarith+
    have vle: "v \<le> 0" using True unfolding gv by (simp add: ceiling_le_iff)
    have d1: "\<bar>decodeSample v - c\<bar> \<le> 1 / 32767"
    proof (cases "v < 0")
      case True
      then have "decodeSample v = of_int v / 32768" by (simp add: decodeSample_def)
      then show ?thesis using c1 c2 by (simp add: field_simps)
    next
      case False
      with vle have "v = 0" by simp
      then show ?thesis using c1 c2 True by (simp add: decodeSample_def)
    qed
    have d2: "\<bar>decodeBy32767 v - c\<bar> \<le> 1 / 32767"
      using c1 c2 r True by (simp add: decodeBy32767_def field_simps)
    have d3: "\<bar>decodeBy32768 v - c\<bar> \<le> 1 / 16384"
      using c1 c2 r True by (simp add: decodeBy32768_def field_simps)
    from d1 d2 d3 show ?thesis by simp
  next
    case False
    then have gv: "v = \<lfloor>c * 32767\<rfloor>" using g by simp
    have c1: "of_int v \<le> c * 32767" and c2: "c * 32767 < of_int v + 1"
      unfolding gv by linarith+
    have "0 \<le> v" using False unfolding gv by simp
    then have "decodeSample v = of_int v / 32767" by (simp add: decodeSample_def)
    then have d1: "\<bar>decodeSample v - c\<bar> \<le> 1 / 32767"
      using c1 c2 by (simp add: field_simps)
    have d2: "\<bar>decodeBy32767 v - c\<bar> \<le> 1 / 32767"
      using c1 c2 by (simp add: decodeBy32767_def field_simps)
    have d3: "\<bar>decodeBy32768 v - c\<bar> \<le> 1 / 16384"
      using c1 c2 r False by (simp add: decodeBy32768_def field_simps)
    from d1 d2 d3 show ?thesis by simp
  qed
  then show ?thesis unfolding v_def .
qed

text \<open>
  An instance: \<open>0.5\<close> is stored as 16383 and decoded to \<open>16383/32767\<close>, off by
  \<open>1/65534\<close>; the out-of-range sample \<open>-3\<close>, whose clamp is \<open>-1\<close>, is stored as \<open>-32768\<close>,
  which \<open>v/32767\<close> decodes to \<open>-32768/32767\<close>, off by exactly \<open>1/32767\<close>.
\<close>

theorem pcm16_round_trip_witness:
  "is_float32 (1 / 2) \<and> is_float32 (- 3)
   \<and> decodeSample (getInt16LE (float32ToPCM16 [Num (1 / 2), Num (- 3)]) 0) = 16383 / 32767
   \<and> \<bar>decodeSample (getInt16LE (float32ToPCM16 [Num (1 / 2), Num (- 3)]) 0) - 1 / 2\<bar>
        \<le> 1 / 32767
   \<and> \<bar>decodeBy32768 (getInt16LE (float32ToPCM16 [Num (1 / 2), Num (- 3)]) 0) - 1 / 2\<bar>
        \<le> 1 / 16384
   \<and> decodeBy32767 (getInt16LE (float32ToPCM16 [Num (1 / 2), Num (- 3)]) 2) = - 32768 / 32767
   \<and> \<bar>decodeBy32767 (getInt16LE (float32ToPCM16 [Num (1 / 2), Num (- 3)]) 2) - (- 1)\<bar>
        \<le> 1 / 32767
   \<and> \<bar>decodeSample (getInt16LE (float32ToPCM16 [Num (1 / 2), Num (- 3)]) 2) - (- 1)\<bar>
        \<le> 1 / 32767"
proof -
  have f: "is_float32 (1 / 2)" "is_float32 (- 3)"
    by (simp_all add: is_float32_def fl_eval)
  define xs where "xs = [Num (1 / 2), Num (- 3)]"
  have g0: "getInt16LE (float32ToPCM16 xs) 0 = 16383"
    using encoded_value[of 0 xs "1 / 2"] f(1) by (simp add: xs_def Let_def)
  have g1: "getInt16LE (float32ToPCM16 xs) 2 = - 32768"
    using encoded_value[of 1 xs "- 3"] f(2) by (simp add: xs_def Let_def)
  have t0: "\<bar>decodeSample (getInt16LE (float32ToPCM16 xs) 0) - 1 / 2\<bar> \<le> 1 / 32767
          \<and> \<bar>decodeBy32768 (getInt16LE (float32ToPCM16 xs) 0) - 1 / 2\<bar> \<le> 1 / 16384"
    using pcm16_round_trip [of 0 xs "1 / 2" "1 / 2"] f(1) by (simp add: xs_def)
  have t1: "\<bar>decodeBy32767 (getInt16LE (float32ToPCM16 xs) 2) - (- 1)\<bar> \<le> 1 / 32767
          \<and> \<bar>decodeSample (getInt16LE (float32ToPCM16 xs) 2) - (- 1)\<bar> \<le> 1 / 32767"
    using pcm16_round_trip [of 1 xs "- 3" "- 1"] f(2) by (simp add: xs_def)
  have d0: "decodeSample (getInt16LE (float32ToPCM16 xs) 0) = 16383 / 32767"
    by (simp add: g0 decodeSample_def)
  have d1: "decodeBy32767 (getInt16LE (float32ToPCM16 xs) 2) = - 32768 / 32767"
    by (simp add: g1 decodeBy32767_def)
  show ?thesis using f t0 t1 d0 d1 unfolding xs_def by simp
qed

section \<open>Resample length\<close>

text \<open>
  C3 as stated fails: the source divides twice, \<^verbatim>\<open>ratio = inputSampleRate /
  outputSampleRate\<close> and then \<^verbatim>\<open>inputBuffer.length / ratio\<close>, each quotient rounded to a
  double, and the second can land just under an integer that the exact quotient reaches.
  A 480-sample frame from 12000 Hz to 11025 Hz gets 440 samples, not
  \<open>\<lfloor>480 * 11025 / 12000\<rfloor> = 441\<close> (on an engine that allocates 65536 elements, and on
  any that allocates 440).
\<close>

theorem resample_length_law_counterexample:
  "(12000 :: nat) \<noteq> 11025
   \<and> resampledLength 65536 (replicate 480 (Num 0)) 12000 11025 = Some 440
   \<and> \<lfloor>real (length (replicate 480 (Num 0))) * 11025 / 12000\<rfloor> = 441"
  by (simp add: resampledLength_unfold resampleRatio_def outputLength_def allocates_def
      maxTypedArrayLength_def fl_eval)

text \<open>
  C3, amended. Take positive whole rates that differ, with \<open>inputRate < 2^53\<close> and
  \<open>len(x) * outputRate < 2^51\<close>. The call asks for an output array of \<open>n\<close> elements,
  where \<open>n\<close> is \<open>\<lfloor>len(x) * outputRate / inputRate\<rfloor>\<close>, except possibly when that
  quotient is a whole number while the output rate does not divide the input rate: then
  \<open>n\<close> is that number or one less. If the engine allocates \<open>n\<close> elements the frame
  returned has \<open>n\<close> samples; if not, no frame is returned (a \<^verbatim>\<open>RangeError\<close> is thrown).
  In particular the law holds for every frame returned when the input rate is a multiple
  of the output rate, as for 48000 Hz to 16000 Hz.
\<close>

theorem resample_length:
  assumes i: "0 < inputSampleRate" and o: "0 < outputSampleRate"
    and ne: "inputSampleRate \<noteq> outputSampleRate"
    and ib: "inputSampleRate < 2 ^ 53"
    and N: "length x * outputSampleRate < 2 ^ 51"
  shows "\<exists>n. resampledLength engineLimit x inputSampleRate outputSampleRate
               = (if n \<le> engineLimit then Some n else None)
           \<and> (n = length x * outputSampleRate div inputSampleRate
              \<or> (inputSampleRate dvd length x * outputSampleRate
                 \<and> \<not> outputSampleRate dvd inputSampleRate
                 \<and> n + 1 = length x * outputSampleRate div inputSampleRate))"
proof (cases "x = []")
  case True
  then have "resampledLength engineLimit x inputSampleRate outputSampleRate
               = (if 0 \<le> engineLimit then Some 0 else None)
           \<and> 0 = length x * outputSampleRate div inputSampleRate"
    using ne o by (simp add: resampledLength_unfold outputLength_def allocates_def)
  then show ?thesis by blast
next
  case False
  then have len: "0 < length x" by simp
  have "outputSampleRate \<le> length x * outputSampleRate" using len by (cases "length x") simp_all
  from this N have "outputSampleRate < 2 ^ 51" by (rule le_less_trans)
  then have ob: "outputSampleRate < 2 ^ 53" by simp
  define n where "n = outputLength (length x) (resampleRatio inputSampleRate outputSampleRate)"
  define m where "m = length x * outputSampleRate div inputSampleRate"
  have rpos: "resampleRatio inputSampleRate outputSampleRate \<noteq> 0"
    using ratio_bounds(3)[OF i o ob ib] by simp
  from output_length_cases[OF len i o ib N]
  have c: "n = m \<or> (inputSampleRate dvd length x * outputSampleRate \<and> n + 1 = m)"
    by (simp add: n_def m_def)
  have "m \<le> length x * outputSampleRate" unfolding m_def by (rule div_le_dividend)
  from this N have "m < 2 ^ 51" by (rule le_less_trans)
  with c have "n < 2 ^ 51" by auto
  then have nmax: "n \<le> maxTypedArrayLength" by (simp add: maxTypedArrayLength_def)
  have res: "resampledLength engineLimit x inputSampleRate outputSampleRate
               = (if n \<le> engineLimit then Some n else None)"
    using ne o rpos nmax
    by (simp add: resampledLength_unfold n_def[symmetric] allocates_def)
  have "n = m \<or> (inputSampleRate dvd length x * outputSampleRate
                 \<and> \<not> outputSampleRate dvd inputSampleRate \<and> n + 1 = m)"
  proof (cases "outputSampleRate dvd inputSampleRate")
    case True
    then obtain k where k: "inputSampleRate = k * outputSampleRate"
      by (metis dvdE mult.commute)
    show ?thesis
    proof (cases "inputSampleRate dvd length x * outputSampleRate")
      case True
      have "length x \<le> length x * outputSampleRate" using o by (cases outputSampleRate) simp_all
      from this N have "length x < 2 ^ 51" by (rule le_less_trans)
      then have "length x < 2 ^ 53" by simp
      from output_length_multiple[OF o k ib True this] show ?thesis
        by (simp add: n_def m_def)
    next
      case False
      with c show ?thesis by simp
    qed
  next
    case False
    with c show ?thesis by blast
  qed
  with res show ?thesis unfolding m_def by blast
qed

text \<open>
  An instance: a 4096-sample frame from 48000 Hz to 16000 Hz has 1365 samples on an
  engine that allocates 65536 elements, and is not returned by one that allocates only
  1000.
\<close>

theorem resample_length_witness:
  "(0 :: nat) < 48000 \<and> (0 :: nat) < 16000 \<and> (48000 :: nat) \<noteq> 16000
   \<and> (48000 :: nat) < 2 ^ 53
   \<and> length (replicate 4096 (Num (1 / 2))) * 16000 < 2 ^ 51
   \<and> resampledLength 65536 (replicate 4096 (Num (1 / 2))) 48000 16000 = Some 1365
   \<and> resampledLength 1000 (replicate 4096 (Num (1 / 2))) 48000 16000 = None"
  using resample_length [of 48000 16000 "replicate 4096 (Num (1 / 2))" 65536]
        resample_length [of 48000 16000 "replicate 4096 (Num (1 / 2))" 1000]
  by simp

section \<open>Reads of the resampler\<close>


text \<open>
  Well within the whole rates below \<open>2^20\<close> Hz the same happens on an engine of limited
  memory: a 4096-sample frame from 1 Hz to 1048575 Hz asks for 4294963200 elements, more
  than an engine allocates whose limit is \<open>2^30 - 1\<close> elements (buffers under 4 GiB).
\<close>

lemma resample_range_error_engine:
  "outputLength 4096 (resampleRatio 1 1048575) = 4294963200
   \<and> resampleAudio 1073741823 (replicate 4096 (Num 0)) 1 1048575 = Inl RangeError"
proof -
  have n: "outputLength 4096 (resampleRatio 1 1048575) = 4294963200"
    by (simp add: resampleRatio_def outputLength_def fl_eval)
  have z: "resampleRatio 1 1048575 \<noteq> 0"
    by (simp add: resampleRatio_def fl_eval)
  show ?thesis
    using n z by (simp add: resampleAudio_def Let_def allocates_def)
qed



section \<open>Connection guard\<close>

text \<open>
  The guard of \<^verbatim>\<open>connectToRobot\<close> does what C5 says of it: while the referenced socket
  is connecting or open, or the connecting flag is set, the call changes nothing, and a
  second call right after a first constructs no further socket.
\<close>

lemma connect_noop:
  "wsReadyState st = Some OPEN \<or> wsReadyState st = Some CONNECTING \<or> isConnectingRef st
   \<Longrightarrow> connectToRobot st = st"
  by (simp add: connectToRobot_def)

lemma connect_twice: "connectToRobot (connectToRobot st) = connectToRobot st"
  by (simp add: connectToRobot_def)

lemma connect_opens_at_most_one:
  "length (sockets (connectToRobot (connectToRobot st))) \<le> length (sockets st) + 1"
  by (simp add: connect_twice) (simp add: connectToRobot_def)

lemmas bridge_eval = possible_def handle_def connectToRobot_def connectionCleanup_def
  closeSocket_def handleTrackSubscribed_def processRemoteAudioTrack_def
  cleanupAudioProcessor_def onopen_def onclose_def onerror_def onmessage_def
  wsReadyState_def initialBridge_def openSockets_def

lemma two_connects_one_socket:
  "map_option (\<lambda>st. (sockets st, wsRef st, isConnectingRef st))
     (run initialBridge [EffectEnabled, AudioTrackSubscribed])
   = Some ([CONNECTING], Some 0, True)"
  by (simp add: bridge_eval)

text \<open>
  C5. The guard does not give the invariant that at most one connection is open at any
  time. The close handler of every socket clears the shared reference and the connecting
  flag without checking that they still belong to that socket, and the guard lets a
  socket that is closing be replaced. Run: the effect connects (socket 0) and the socket
  opens; the effect is cleaned up, which sends the finish message, starts closing
  socket 0 and clears the reference; the effect runs again and constructs socket 1;
  the close event of socket 0 arrives and clears the reference to socket 1; an audio
  track is subscribed, finds no reference and constructs socket 2; both open. Sockets 1
  and 2 are then open together, each having been sent the start-of-stream message.
\<close>

theorem stale_close_two_open_sockets:
  "map_option (\<lambda>st. (sockets st, wsRef st, openSockets st, wire st))
     (run initialBridge
        [EffectEnabled, SocketOpen 0, EffectCleanup, EffectEnabled, SocketClose 0,
         AudioTrackSubscribed, SocketOpen 1, SocketOpen 2])
   = Some ([CLOSED, OPEN, OPEN], Some 2, 2,
           [(0, NewStream), (0, Finish), (1, NewStream), (2, NewStream)])"
  by (simp add: bridge_eval)

text \<open>The same outcome without any cleanup, when the peer starts the closing
  handshake and a track is subscribed before the close event.\<close>

lemma closing_handshake_two_open_sockets:
  "map_option (\<lambda>st. (sockets st, wsRef st, openSockets st))
     (run initialBridge
        [EffectEnabled, SocketOpen 0, SocketClosing 0, AudioTrackSubscribed, SocketClose 0,
         AudioTrackSubscribed, SocketOpen 1, SocketOpen 2])
   = Some ([CLOSED, OPEN, OPEN], Some 2, 2)"
  by (simp add: bridge_eval)

section \<open>At most one dispatch per text\<close>

lemmas tts_eval = ttsRun_def ttsStep_def effectBody_def timerCallback_def runCleanup_def
  clearDebounceTimer_def initialTts_def trim_def isWhiteSpace_def latestAgentText_def Let_def

lemma effectBody_cases:
  "effectBody trs me st =
     (case latestAgentText trs me of
        None \<Rightarrow> st\<lparr> cleanup := False \<rparr>
      | Some txt \<Rightarrow>
          if length txt < 2 \<or> txt \<in> sentTextsRef st then st\<lparr> cleanup := False \<rparr>
          else (clearDebounceTimer (st\<lparr> pendingTextRef := txt \<rparr>))
                 \<lparr> debounceTimerRef := Some (nextTimer st),
                   timers := timers (clearDebounceTimer st) @ [nextTimer st],
                   nextTimer := nextTimer st + 1,
                   cleanup := True \<rparr>)"
  by (auto simp: effectBody_def latestAgentText_def Let_def clearDebounceTimer_def
      split: option.splits)

lemma clearDebounceTimer_fields [simp]:
  "sentTextsRef (clearDebounceTimer st) = sentTextsRef st"
  "dispatched (clearDebounceTimer st) = dispatched st"
  "pendingTextRef (clearDebounceTimer st) = pendingTextRef st"
  "nextTimer (clearDebounceTimer st) = nextTimer st"
  "set (timers (clearDebounceTimer st)) \<subseteq> set (timers st)"
  by (auto simp: clearDebounceTimer_def split: option.splits)

lemma runCleanup_fields [simp]:
  "sentTextsRef (runCleanup st) = sentTextsRef st"
  "dispatched (runCleanup st) = dispatched st"
  "pendingTextRef (runCleanup st) = pendingTextRef st"
  "nextTimer (runCleanup st) = nextTimer st"
  "set (timers (runCleanup st)) \<subseteq> set (timers st)"
  by (auto simp: runCleanup_def)

lemma effectBody_fields [simp]:
  "sentTextsRef (effectBody trs me st) = sentTextsRef st"
  "dispatched (effectBody trs me st) = dispatched st"
  by (simp_all add: effectBody_cases split: option.splits)

lemma timerCallback_cases:
  "timerCallback st = st
   \<or> (pendingTextRef st \<notin> sentTextsRef st
      \<and> sentTextsRef (timerCallback st) = insert (pendingTextRef st) (sentTextsRef st)
      \<and> dispatched (timerCallback st) = dispatched st @ [pendingTextRef st])"
  by (simp add: timerCallback_def Let_def)

lemma step_sent_mono: "sentTextsRef st \<subseteq> sentTextsRef (ttsStep st ev)"
proof (cases ev)
  case (TimerExpired t)
  show ?thesis
    using timerCallback_cases[of "st\<lparr> timers := removeAll t (timers st) \<rparr>"]
    by (auto simp: ttsStep_def TimerExpired)
qed (simp_all add: ttsStep_def)

lemma step_dispatch:
  "dispatched (ttsStep st ev) = dispatched st
   \<or> (\<exists>T. T \<notin> sentTextsRef st
          \<and> dispatched (ttsStep st ev) = dispatched st @ [T]
          \<and> sentTextsRef (ttsStep st ev) = insert T (sentTextsRef st))"
proof (cases ev)
  case (TimerExpired t)
  show ?thesis
    using timerCallback_cases[of "st\<lparr> timers := removeAll t (timers st) \<rparr>"]
    by (auto simp: ttsStep_def TimerExpired)
qed (simp_all add: ttsStep_def)

lemma step_inv: "dispatchInv st \<Longrightarrow> dispatchInv (ttsStep st ev)"
  using step_dispatch[of st ev] step_sent_mono[of st ev]
  by (auto simp: dispatchInv_def)

lemma run_inv: "dispatchInv st \<Longrightarrow> dispatchInv (ttsRun st evs)"
  unfolding ttsRun_def by (induction evs arbitrary: st) (simp_all add: step_inv)

lemma init_inv: "dispatchInv initialTts"
  by (simp add: dispatchInv_def initialTts_def)

lemma run_snoc: "ttsRun st (evs @ [ev]) = ttsStep (ttsRun st evs) ev"
  by (simp add: ttsRun_def)

lemma distinct_count_le_1: "distinct xs \<Longrightarrow> count_list xs x \<le> 1"
  by (induction xs) (auto simp: count_list_0_iff)

text \<open>
  C1. In every run of the relay from its initial state each text is dispatched at most
  once, and every dispatched text is in the set of sent texts. In any state, no event
  removes a text from the set; an event dispatches nothing, or dispatches one text that
  was not in the set and puts it there; a transcript update whose (trimmed) latest
  remote text is already in the set dispatches nothing, leaves the pending text alone
  and starts no timer; and a failed request changes nothing, so the text stays in the
  set and is not sent again.
\<close>

theorem dispatch_at_most_once:
  "count_list (dispatched (ttsRun initialTts evs)) T \<le> 1
   \<and> set (dispatched (ttsRun initialTts evs)) \<subseteq> sentTextsRef (ttsRun initialTts evs)
   \<and> sentTextsRef st \<subseteq> sentTextsRef (ttsStep st ev)
   \<and> (dispatched (ttsStep st ev) = dispatched st
      \<or> (\<exists>U. U \<notin> sentTextsRef st
             \<and> dispatched (ttsStep st ev) = dispatched st @ [U]
             \<and> sentTextsRef (ttsStep st ev) = insert U (sentTextsRef st)))
   \<and> (latestAgentText trs me = Some T \<and> T \<in> sentTextsRef st \<longrightarrow>
        dispatched (ttsStep st (Transcriptions trs me)) = dispatched st
      \<and> pendingTextRef (ttsStep st (Transcriptions trs me)) = pendingTextRef st
      \<and> nextTimer (ttsStep st (Transcriptions trs me)) = nextTimer st
      \<and> set (timers (ttsStep st (Transcriptions trs me))) \<subseteq> set (timers st))
   \<and> ttsStep st FetchRejected = st"
proof (intro conjI impI)
  have "dispatchInv (ttsRun initialTts evs)" by (rule run_inv[OF init_inv])
  then have d: "distinct (dispatched (ttsRun initialTts evs))"
    and "set (dispatched (ttsRun initialTts evs)) \<subseteq> sentTextsRef (ttsRun initialTts evs)"
    by (simp_all add: dispatchInv_def)
  then show "set (dispatched (ttsRun initialTts evs)) \<subseteq> sentTextsRef (ttsRun initialTts evs)"
    by simp
  show "count_list (dispatched (ttsRun initialTts evs)) T \<le> 1"
    by (rule distinct_count_le_1[OF d])
  show "sentTextsRef st \<subseteq> sentTextsRef (ttsStep st ev)" by (rule step_sent_mono)
  show "dispatched (ttsStep st ev) = dispatched st
      \<or> (\<exists>U. U \<notin> sentTextsRef st
             \<and> dispatched (ttsStep st ev) = dispatched st @ [U]
             \<and> sentTextsRef (ttsStep st ev) = insert U (sentTextsRef st))"
    by (rule step_dispatch)
  show "ttsStep st FetchRejected = st" by (simp add: ttsStep_def)
next
  assume h: "latestAgentText trs me = Some T \<and> T \<in> sentTextsRef st"
  then have e: "ttsStep st (Transcriptions trs me) = (runCleanup st)\<lparr> cleanup := False \<rparr>"
    by (simp add: ttsStep_def effectBody_cases)
  show "dispatched (ttsStep st (Transcriptions trs me)) = dispatched st"
    and "pendingTextRef (ttsStep st (Transcriptions trs me)) = pendingTextRef st"
    and "nextTimer (ttsStep st (Transcriptions trs me)) = nextTimer st"
    and "set (timers (ttsStep st (Transcriptions trs me))) \<subseteq> set (timers st)"
    unfolding e by simp_all
qed

text \<open>The text is dispatched by the first timer; the same text arriving again, padded
  with white space, is recognised and starts nothing.\<close>

theorem dispatch_at_most_once_witness:
  "latestAgentText [\<lparr> identity = [0x61], text' = Some [0x20, 0x4F60, 0x597D] \<rparr>] [0x6D]
     = Some [0x4F60, 0x597D]
   \<and> [0x4F60, 0x597D] \<in> sentTextsRef (ttsRun initialTts
         [Transcriptions [\<lparr> identity = [0x61], text' = Some [0x4F60, 0x597D] \<rparr>] [0x6D],
          TimerExpired 1])
   \<and> dispatched (ttsRun initialTts
         [Transcriptions [\<lparr> identity = [0x61], text' = Some [0x4F60, 0x597D] \<rparr>] [0x6D],
          TimerExpired 1]) = [ [0x4F60, 0x597D] ]
   \<and> dispatched (ttsStep (ttsRun initialTts
         [Transcriptions [\<lparr> identity = [0x61], text' = Some [0x4F60, 0x597D] \<rparr>] [0x6D],
          TimerExpired 1])
         (Transcriptions [\<lparr> identity = [0x61], text' = Some [0x20, 0x4F60, 0x597D] \<rparr>] [0x6D]))
       = [ [0x4F60, 0x597D] ]
   \<and> count_list (dispatched (ttsRun initialTts
         [Transcriptions [\<lparr> identity = [0x61], text' = Some [0x4F60, 0x597D] \<rparr>] [0x6D],
          TimerExpired 1])) [0x4F60, 0x597D] \<le> 1"
proof -
  have l: "latestAgentText [\<lparr> identity = [0x61], text' = Some [0x20, 0x4F60, 0x597D] \<rparr>] [0x6D]
             = Some [0x4F60, 0x597D]"
    by (simp add: latestAgentText_def trim_def isWhiteSpace_def)
  have r: "ttsRun initialTts
         [Transcriptions [\<lparr> identity = [0x61], text' = Some [0x4F60, 0x597D] \<rparr>] [0x6D],
          TimerExpired 1]
       = \<lparr> sentTextsRef = {[0x4F60, 0x597D]}, pendingTextRef = [0x4F60, 0x597D],
           debounceTimerRef = Some 1, timers = [], nextTimer = 2, cleanup = True,
           dispatched = [ [0x4F60, 0x597D] ] \<rparr>"
    by (simp add: tts_eval)
  have m: "[0x4F60, 0x597D] \<in> sentTextsRef (ttsRun initialTts
         [Transcriptions [\<lparr> identity = [0x61], text' = Some [0x4F60, 0x597D] \<rparr>] [0x6D],
          TimerExpired 1])"
    unfolding r by simp
  from dispatch_at_most_once
         [of "[Transcriptions [\<lparr> identity = [0x61], text' = Some [0x4F60, 0x597D] \<rparr>] [0x6D],
               TimerExpired 1]"
             "[0x4F60, 0x597D]"
             "ttsRun initialTts
                [Transcriptions [\<lparr> identity = [0x61], text' = Some [0x4F60, 0x597D] \<rparr>] [0x6D],
                 TimerExpired 1]"
             FetchRejected
             "[\<lparr> identity = [0x61], text' = Some [0x20, 0x4F60, 0x597D] \<rparr>]" "[0x6D]"]
       l m
  have "dispatched (ttsStep (ttsRun initialTts
         [Transcriptions [\<lparr> identity = [0x61], text' = Some [0x4F60, 0x597D] \<rparr>] [0x6D],
          TimerExpired 1])
         (Transcriptions [\<lparr> identity = [0x61], text' = Some [0x20, 0x4F60, 0x597D] \<rparr>] [0x6D]))
       = dispatched (ttsRun initialTts
         [Transcriptions [\<lparr> identity = [0x61], text' = Some [0x4F60, 0x597D] \<rparr>] [0x6D],
          TimerExpired 1])
     \<and> count_list (dispatched (ttsRun initialTts
         [Transcriptions [\<lparr> identity = [0x61], text' = Some [0x4F60, 0x597D] \<rparr>] [0x6D],
          TimerExpired 1])) [0x4F60, 0x597D] \<le> 1"
    by blast
  then show ?thesis using l m unfolding r by simp
qed

text \<open>Three growing updates in one window, every timer that could fire, a failed
  request, and the final text once more: one dispatch, of the final text.\<close>

lemma debounced_utterance_scenario:
  "dispatched (ttsRun initialTts
     [Transcriptions [\<lparr> identity = [0x61], text' = Some [0x4F60, 0x597D] \<rparr>] [0x6D],
      Transcriptions [\<lparr> identity = [0x61], text' = Some [0x4F60, 0x597D, 0x5440] \<rparr>] [0x6D],
      Transcriptions [\<lparr> identity = [0x61], text' = Some [0x4F60, 0x597D, 0x5440, 0xFF01] \<rparr>] [0x6D],
      TimerExpired 1, TimerExpired 2, TimerExpired 3, FetchRejected,
      Transcriptions [\<lparr> identity = [0x61], text' = Some [0x4F60, 0x597D, 0x5440, 0xFF01] \<rparr>] [0x6D],
      TimerExpired 3, TimerExpired 4])
   = [ [0x4F60, 0x597D, 0x5440, 0xFF01] ]"
  by (simp add: tts_eval)

section \<open>Length filter of the transcript relay\<close>

lemma length_trim_le: "length (trim s) \<le> length s"
proof -
  have "length (dropWhile isWhiteSpace (rev (dropWhile isWhiteSpace s)))
          \<le> length (rev (dropWhile isWhiteSpace s))"
    by (rule length_dropWhile_le)
  also have "\<dots> \<le> length s" by (simp add: length_dropWhile_le)
  finally show ?thesis by (simp add: trim_def)
qed

text \<open>
  C9 as stated fails in its second half: the test is made on the text after
  \<^verbatim>\<open>trim()\<close>, so a text of two or more code units can still be ignored. The
  three-unit text of a letter between two spaces is ignored: the update records no
  pending text and starts no timer.
\<close>

theorem untrimmed_length_counterexample:
  "\<not> (length [0x20, 0x61, 0x20 :: 16 word] = 0 \<or> length [0x20, 0x61, 0x20 :: 16 word] < 2)
   \<and> effectBody [\<lparr> identity = [0x61, 0x67, 0x65, 0x6E, 0x74], text' = Some [0x20, 0x61, 0x20] \<rparr>]
        [0x6D, 0x65] initialTts = initialTts
   \<and> ttsStep initialTts
        (Transcriptions
           [\<lparr> identity = [0x61, 0x67, 0x65, 0x6E, 0x74], text' = Some [0x20, 0x61, 0x20] \<rparr>]
           [0x6D, 0x65]) = initialTts"
  by (simp add: tts_eval)

text \<open>
  C9, amended, for the whole update: the cleanup that the previous run of the effect
  left, then the effect. An update is ignored when no transcription is a remote
  participant's, when the latest such transcription has no text, when its text is
  shorter than 2 UTF-16 code units, as it is or after trimming white space from both
  ends, and when the trimmed text is already in the set of sent texts. Ignored means:
  no pending text is recorded, no timer is started or referenced, nothing is added to
  the sent texts and nothing is dispatched, and the effect leaves no cleanup; the one
  change is the previous cleanup's, which cancels the timer that the previous update
  started (\<open>kept\<close> are the timers still pending). Otherwise the trimmed text is
  eligible: it becomes the pending text, the timer referenced is cancelled, and a new
  timer is started and referenced.
\<close>

theorem transcript_text_filter:
  "(let agent = filter (\<lambda>t. identity t \<noteq> me) trs;
        after = ttsStep st (Transcriptions trs me);
        kept = (if cleanup st
                then (case debounceTimerRef st of
                        None \<Rightarrow> timers st
                      | Some t \<Rightarrow> removeAll t (timers st))
                else timers st);
        ignored = (after = st\<lparr> timers := kept, cleanup := False \<rparr>)
    in (agent = [] \<longrightarrow> ignored)
     \<and> (agent \<noteq> [] \<longrightarrow>
         (case text' (last agent) of
            None \<Rightarrow> ignored
          | Some raw \<Rightarrow>
              (length raw < 2 \<longrightarrow> ignored)
            \<and> (length (trim raw) < 2 \<longrightarrow> ignored)
            \<and> (trim raw \<in> sentTextsRef st \<longrightarrow> ignored)
            \<and> (2 \<le> length (trim raw) \<and> trim raw \<notin> sentTextsRef st \<longrightarrow>
                 after = st\<lparr> pendingTextRef := trim raw,
                             debounceTimerRef := Some (nextTimer st),
                             timers := (case debounceTimerRef st of
                                          None \<Rightarrow> timers st
                                        | Some t \<Rightarrow> removeAll t (timers st)) @ [nextTimer st],
                             nextTimer := nextTimer st + 1,
                             cleanup := True \<rparr>))))"
proof -
  have s: "length raw < 2 \<Longrightarrow> length (trim raw) < 2" for raw :: jsstring
    using length_trim_le[of raw] by simp
  show ?thesis
    using s
    by (auto simp: Let_def ttsStep_def effectBody_cases latestAgentText_def runCleanup_def
        clearDebounceTimer_def split: option.splits)
qed

text \<open>
  An instance, from a state with the text \<open>hi\<close> pending on timer 1: an update
  whose latest remote transcription has no text is ignored, and so is one whose text is
  a letter between two spaces; both cancel timer 1 and record and start nothing; an
  update with a two-character text between white space makes the trimmed text pending
  on the new timer 2.
\<close>

theorem transcript_text_filter_witness:
  "ttsStep \<lparr> sentTextsRef = {}, pendingTextRef = [0x68, 0x69], debounceTimerRef = Some 1,
             timers = [1], nextTimer = 2, cleanup = True, dispatched = [] \<rparr>
     (Transcriptions [\<lparr> identity = [0x61, 0x67, 0x65, 0x6E, 0x74], text' = None \<rparr>] [0x6D, 0x65])
   = \<lparr> sentTextsRef = {}, pendingTextRef = [0x68, 0x69], debounceTimerRef = Some 1,
       timers = [], nextTimer = 2, cleanup = False, dispatched = [] \<rparr>
   \<and> ttsStep \<lparr> sentTextsRef = {}, pendingTextRef = [0x68, 0x69], debounceTimerRef = Some 1,
             timers = [1], nextTimer = 2, cleanup = True, dispatched = [] \<rparr>
     (Transcriptions [\<lparr> identity = [0x61, 0x67, 0x65, 0x6E, 0x74],
                       text' = Some [0x20, 0x61, 0x20] \<rparr>] [0x6D, 0x65])
   = \<lparr> sentTextsRef = {}, pendingTextRef = [0x68, 0x69], debounceTimerRef = Some 1,
       timers = [], nextTimer = 2, cleanup = False, dispatched = [] \<rparr>
   \<and> trim [0x20, 0x4F60, 0x597D, 0xA] = [0x4F60, 0x597D]
   \<and> ttsStep \<lparr> sentTextsRef = {}, pendingTextRef = [0x68, 0x69], debounceTimerRef = Some 1,
             timers = [1], nextTimer = 2, cleanup = True, dispatched = [] \<rparr>
     (Transcriptions [\<lparr> identity = [0x61, 0x67, 0x65, 0x6E, 0x74],
                       text' = Some [0x20, 0x4F60, 0x597D, 0xA] \<rparr>] [0x6D, 0x65])
   = \<lparr> sentTextsRef = {}, pendingTextRef = [0x4F60, 0x597D], debounceTimerRef = Some 2,
       timers = [2], nextTimer = 3, cleanup = True, dispatched = [] \<rparr>"
proof -
  define st0 :: tts where
    "st0 = \<lparr> sentTextsRef = {}, pendingTextRef = [0x68, 0x69], debounceTimerRef = Some 1,
             timers = [1], nextTimer = 2, cleanup = True, dispatched = [] \<rparr>"
  have t: "trim [0x20, 0x4F60, 0x597D, 0xA] = [0x4F60, 0x597D :: 16 word]"
          "trim [0x20, 0x61, 0x20] = [0x61 :: 16 word]"
    by (simp_all add: trim_def isWhiteSpace_def)
  have a: "ttsStep st0
     (Transcriptions [\<lparr> identity = [0x61, 0x67, 0x65, 0x6E, 0x74], text' = None \<rparr>] [0x6D, 0x65])
     = st0\<lparr> timers := [], cleanup := False \<rparr>"
    using transcript_text_filter
      [of "[0x6D, 0x65]" "[\<lparr> identity = [0x61, 0x67, 0x65, 0x6E, 0x74], text' = None \<rparr>]" st0]
    by (simp add: Let_def st0_def)
  have b: "ttsStep st0
     (Transcriptions [\<lparr> identity = [0x61, 0x67, 0x65, 0x6E, 0x74],
                       text' = Some [0x20, 0x61, 0x20] \<rparr>] [0x6D, 0x65])
     = st0\<lparr> timers := [], cleanup := False \<rparr>"
    using transcript_text_filter
      [of "[0x6D, 0x65]" "[\<lparr> identity = [0x61, 0x67, 0x65, 0x6E, 0x74],
                       text' = Some [0x20, 0x61, 0x20] \<rparr>]" st0]
    by (simp add: Let_def st0_def t)
  have c: "ttsStep st0
     (Transcriptions [\<lparr> identity = [0x61, 0x67, 0x65, 0x6E, 0x74],
                       text' = Some [0x20, 0x4F60, 0x597D, 0xA] \<rparr>] [0x6D, 0x65])
     = st0\<lparr> pendingTextRef := [0x4F60, 0x597D], debounceTimerRef := Some 2,
            timers := [2], nextTimer := 3, cleanup := True \<rparr>"
    using transcript_text_filter
      [of "[0x6D, 0x65]" "[\<lparr> identity = [0x61, 0x67, 0x65, 0x6E, 0x74],
                       text' = Some [0x20, 0x4F60, 0x597D, 0xA] \<rparr>]" st0]
    by (simp add: Let_def st0_def t)
  show ?thesis using a b c t(1) unfolding st0_def by simp
qed

end
